theory Spec2Isabelle
  imports Complex_Main
begin

section \<open>Documents and transcript fragments\<close>

text \<open>
  A LangChain \<open>Document\<close> carries \<open>page_content\<close> and a metadata dictionary with the
  keys \<open>video_id\<close>, \<open>start\<close> and \<open>end\<close>. The ingestion code writes all three keys on every
  document it creates, so the dictionary is a record here. A transcript fragment has a
  text, a start time and a duration; the two times are floats in the source and reals
  here.
\<close>

record metadata =
  video_id :: string
  start :: int
  end_sec :: int

record document =
  page_content :: string
  metadata :: metadata

record fragment =
  frag_text :: string
  frag_start :: real
  duration :: real

section \<open>Python helpers\<close>

text \<open>\<open>int(x)\<close> on a float truncates toward zero.\<close>

definition py_int :: "real \<Rightarrow> int" where
  "py_int x = (if 0 \<le> x then \<lfloor>x\<rfloor> else \<lceil>x\<rceil>)"

text \<open>\<open>" ".join(xs)\<close>.\<close>

fun join_sp :: "string list \<Rightarrow> string" where
  "join_sp [] = []"
| "join_sp [x] = x"
| "join_sp (x # y # ys) = x @ '' '' @ join_sp (y # ys)"

text \<open>Decimal rendering of an integer, as an f-string prints it.\<close>

definition digit_char :: "nat \<Rightarrow> char" where
  "digit_char d = ''0123456789'' ! d"

fun str_nat :: "nat \<Rightarrow> string" where
  "str_nat n = (if n < 10 then [digit_char n] else str_nat (n div 10) @ [digit_char (n mod 10)])"

declare str_nat.simps [simp del]

definition str_int :: "int \<Rightarrow> string" where
  "str_int i = (if i < 0 then ''-'' @ str_nat (nat (- i)) else str_nat (nat i))"

section \<open>Chunker: \<open>ingest_video_to_chunks\<close> (transcript.py, multiVideo.py)\<close>

text \<open>
  The result count policy of lines 175--179 of transcript.py, as a function of
  \<open>num_chunks = len(chunks)\<close>. \<open>math.log2\<close> is the real logarithm to base 2 and the
  product with \<open>1.5\<close> is taken in the reals. The product is an integer only when
  \<open>num_chunks\<close> is a power of four, where \<open>math.log2\<close> is exact, so the double-precision
  computation of the source has the same integer part.
\<close>

definition dynamic_k :: "nat \<Rightarrow> int" where
  "dynamic_k num_chunks =
     (if num_chunks < 20 then min (int num_chunks) 5
      else max 5 (min 10 (py_int (log 2 (real num_chunks) * 1.5))))"

text \<open>
  The same policy in the words of the specification:
  \<open>clamp(round(log2(num_chunks) * 1.5), 5, 10)\<close> from 20 chunks on.
\<close>

definition dynamic_k_spec :: "nat \<Rightarrow> int" where
  "dynamic_k_spec num_chunks =
     (if num_chunks < 20 then min (int num_chunks) 5
      else max 5 (min 10 (round (log 2 (real num_chunks) * 1.5))))"

text \<open>
  The loop that accumulates consecutive fragment documents into raw segments. The
  arguments after the remaining documents are the loop variables \<open>current_content\<close>,
  \<open>current_start\<close> and \<open>current_len\<close>; the test \<open>i == len(fragment_docs) - 1\<close> holds on
  the last document, that is when no document remains.
\<close>

fun build_raw_docs ::
  "string \<Rightarrow> nat \<Rightarrow> document list \<Rightarrow> string list \<Rightarrow> int \<Rightarrow> nat \<Rightarrow> document list" where
  "build_raw_docs vid target_size [] current_content current_start current_len = []"
| "build_raw_docs vid target_size (doc # rest) current_content current_start current_len =
     (let current_start' = (if current_content = [] then start (metadata doc) else current_start);
          current_content' = current_content @ [page_content doc];
          current_len' = current_len + length (page_content doc);
          current_end = end_sec (metadata doc)
      in if current_len' \<ge> target_size \<or> rest = [] then
           \<lparr>page_content = ''[Timestamp: '' @ str_int current_start' @ ''s] '' @ join_sp current_content',
            metadata = \<lparr>video_id = vid, start = current_start', end_sec = current_end\<rparr>\<rparr>
           # build_raw_docs vid target_size rest [] current_start' 0
         else build_raw_docs vid target_size rest current_content' current_start' current_len')"

text \<open>
  \<open>ingest_video_to_chunks\<close>, from the fragments that \<open>fetch_transcript_fragments\<close>
  returned. The text splitter is the library's \<open>RecursiveCharacterTextSplitter\<close>; it is
  a parameter, called with \<open>chunk_size\<close>, \<open>chunk_overlap\<close> and the raw segments.
  \<open>int(total_chars / 50)\<close> and \<open>int(target_size * 0.15)\<close> are integer quotients.
\<close>

definition ingest_video_to_chunks ::
  "(nat \<Rightarrow> nat \<Rightarrow> document list \<Rightarrow> document list) \<Rightarrow> string \<Rightarrow> fragment list
     \<Rightarrow> document list \<times> int" where
  "ingest_video_to_chunks split_documents vid fragments =
     (let fragment_docs =
            map (\<lambda>f. \<lparr>page_content = frag_text f,
                       metadata = \<lparr>video_id = vid, start = py_int (frag_start f),
                                   end_sec = py_int (frag_start f + duration f)\<rparr>\<rparr>) fragments;
          total_chars = sum_list (map (\<lambda>d. length (page_content d)) fragment_docs)
      in if fragment_docs = [] then ([], 5)
         else
           let target_size = max 600 (min 1200 (total_chars div 50));
               overlap = target_size * 15 div 100;
               raw_docs = build_raw_docs vid target_size fragment_docs [] 0 0;
               chunks = split_documents target_size overlap raw_docs;
               num_chunks = length chunks
           in (chunks, dynamic_k num_chunks))"

text \<open>
  A transcript of \<open>n\<close> fragments of 1200 characters each, thirty seconds apart:
  every fragment reaches the window size of line 155 on its own.
\<close>

definition long_fragments :: "nat \<Rightarrow> fragment list" where
  "long_fragments n =
     map (\<lambda>i. \<lparr>frag_text = replicate 1200 CHR ''a'', frag_start = 30 * real i, duration = 30\<rparr>)
       [0..<n]"


section \<open>Video identifiers: \<open>extract_video_id\<close> (transcript.py)\<close>

text \<open>
  The pattern is \<open>(?:v=|\/|be\/)([0-9A-Za-z_-]{11})\<close>. \<open>id_char\<close> is its character
  class, \<open>match_group\<close> the group of exactly eleven such characters, \<open>match_here\<close> the
  whole pattern anchored at the front of a string, with the three alternatives tried in
  the order of the pattern. \<open>re.search\<close> tries the start positions from left to right and
  returns the first match.
\<close>

definition id_char :: "char \<Rightarrow> bool" where
  "id_char c \<longleftrightarrow> c \<in> set ''0123456789ABCDEFGHIJKLMNOPQRSTUVWXYZabcdefghijklmnopqrstuvwxyz_-''"

definition match_group :: "string \<Rightarrow> string option" where
  "match_group s = (if 11 \<le> length s \<and> list_all id_char (take 11 s) then Some (take 11 s) else None)"

definition match_prefixed :: "string \<Rightarrow> string \<Rightarrow> string option" where
  "match_prefixed p s = (if take (length p) s = p then match_group (drop (length p) s) else None)"

definition match_here :: "string \<Rightarrow> string option" where
  "match_here s =
     (case match_prefixed ''v='' s of Some g \<Rightarrow> Some g
      | None \<Rightarrow>
         (case match_prefixed ''/'' s of Some g \<Rightarrow> Some g
          | None \<Rightarrow> match_prefixed ''be/'' s))"

fun re_search :: "string \<Rightarrow> string option" where
  "re_search [] = match_here []"
| "re_search (c # cs) = (case match_here (c # cs) of Some g \<Rightarrow> Some g | None \<Rightarrow> re_search cs)"

definition extract_video_id :: "string \<Rightarrow> string" where
  "extract_video_id url_or_id = (case re_search url_or_id of Some g \<Rightarrow> g | None \<Rightarrow> url_or_id)"

text \<open>
  The claim's words: position \<open>i\<close> of \<open>s\<close> starts an 11-character group over the class
  that is preceded by \<open>v=\<close>, \<open>/\<close> or \<open>be/\<close>.
\<close>

definition preceded_group_at :: "string \<Rightarrow> nat \<Rightarrow> bool" where
  "preceded_group_at s i \<longleftrightarrow>
     i + 11 \<le> length s \<and> list_all id_char (take 11 (drop i s)) \<and>
     ((2 \<le> i \<and> take 2 (drop (i - 2) s) = ''v='') \<or>
      (1 \<le> i \<and> take 1 (drop (i - 1) s) = ''/'') \<or>
      (3 \<le> i \<and> take 3 (drop (i - 3) s) = ''be/''))"

text \<open>A string starts with a group.\<close>

definition grp :: "string \<Rightarrow> bool" where
  "grp s \<longleftrightarrow> 11 \<le> length s \<and> list_all id_char (take 11 s)"

section \<open>Summary input: \<open>_get_universal_summary\<close> (pipeline.py), \<open>prepare_text\<close> (multiVideo.py)\<close>

text \<open>
  \<open>slice_step step xs\<close> is the extended slice \<open>xs[::step]\<close> for a positive \<open>step\<close> (the
  only steps the callers compute; Python rejects step 0). \<open>prepare_text\<close> is the text
  that the summary prompt receives: the local function of that name in
  \<open>get_dual_video_summary\<close>, and the variable \<open>final_text\<close> of \<open>_get_universal_summary\<close>.
\<close>

definition MAX_CHARS :: nat where
  "MAX_CHARS = 500000"

fun slice_step :: "nat \<Rightarrow> 'a list \<Rightarrow> 'a list" where
  "slice_step step [] = []"
| "slice_step step (x # xs) = x # slice_step step (drop (step - 1) xs)"

definition prepare_text :: "document list \<Rightarrow> string" where
  "prepare_text chunks =
     (let total_text = join_sp (map page_content chunks)
      in if length total_text > MAX_CHARS then
           let step = length total_text div MAX_CHARS + 1;
               sampled = slice_step step chunks
           in join_sp (map page_content sampled)
         else total_text)"

text \<open>The specification's stride, \<open>ceil(len / budget)\<close>.\<close>

definition ceil_div :: "nat \<Rightarrow> nat \<Rightarrow> nat" where
  "ceil_div a b = (a + b - 1) div b"

text \<open>A chunk of \<open>n\<close> characters starting at minute \<open>i\<close>, for concrete inputs.\<close>

definition sample_chunk :: "nat \<Rightarrow> nat \<Rightarrow> document" where
  "sample_chunk i n =
     \<lparr>page_content = replicate n CHR ''a'',
      metadata = \<lparr>video_id = ''dQw4w9WgXcQ'', start = 60 * int i, end_sec = 60 * int i + 60\<rparr>\<rparr>"

section \<open>Text and the Unicode database\<close>

text \<open>
  Python strings are modelled as HOL strings. What the code asks of Python's Unicode
  database is a parameter: \<open>category_C c\<close> is \<open>unicodedata.category(c)[0] == "C"\<close>,
  \<open>isspace\<close> the whitespace that \<open>str.strip\<close> and \<open>str.split\<close> use, \<open>isalpha\<close> and
  \<open>isdigit\<close> the methods of \<open>str\<close>, \<open>isdecimal\<close> the regular-expression class \<open>\d\<close>, and
  \<open>NFKC\<close> is \<open>unicodedata.normalize("NFKC", _)\<close>. \<open>ascii\<close> gives the tables on the
  code points below 128, where NFKC normalisation changes nothing.
\<close>

record unicode =
  category_C :: "char \<Rightarrow> bool"
  isspace :: "char \<Rightarrow> bool"
  isalpha :: "char \<Rightarrow> bool"
  isdigit :: "char \<Rightarrow> bool"
  isdecimal :: "char \<Rightarrow> bool"
  NFKC :: "string \<Rightarrow> string"

definition ascii :: unicode where
  "ascii =
     \<lparr>category_C = (\<lambda>c. of_char c < (32::nat) \<or> of_char c = (127::nat)),
      isspace = (\<lambda>c. of_char c \<in> {9, 10, 11, 12, 13, 28, 29, 30, 31, 32 :: nat}),
      isalpha = (\<lambda>c. c \<in> set ''ABCDEFGHIJKLMNOPQRSTUVWXYZabcdefghijklmnopqrstuvwxyz''),
      isdigit = (\<lambda>c. c \<in> set ''0123456789''),
      isdecimal = (\<lambda>c. c \<in> set ''0123456789''),
      NFKC = (\<lambda>s. s)\<rparr>"

text \<open>\<open>s.strip()\<close>, \<open>s.split()\<close> (the tokens between runs of whitespace).\<close>

definition strip :: "unicode \<Rightarrow> string \<Rightarrow> string" where
  "strip U s = rev (dropWhile (isspace U) (rev (dropWhile (isspace U) s)))"

fun split_from :: "unicode \<Rightarrow> string \<Rightarrow> string \<Rightarrow> string list" where
  "split_from U cur [] = (if cur = [] then [] else [cur])"
| "split_from U cur (c # cs) =
     (if isspace U c then (if cur = [] then split_from U [] cs else cur # split_from U [] cs)
      else split_from U (cur @ [c]) cs)"

definition split :: "unicode \<Rightarrow> string \<Rightarrow> string list" where
  "split U s = split_from U [] s"

section \<open>Chunk Validator: \<open>validate_chunks_for_embeddings\<close> (embeddings.py, multiVideo.py)\<close>

text \<open>
  The sanitisation at the head of the validator's loop body. \<open>None\<close> is one of the two
  \<open>continue\<close> statements: the chunk is empty after trimming, or shorter than 15
  characters after control characters are removed and whitespace is collapsed.
\<close>

definition sanitize :: "unicode \<Rightarrow> string \<Rightarrow> string option" where
  "sanitize U page =
     (let content = strip U page
      in if content = [] then None
         else
           let content = filter (\<lambda>ch. \<not> category_C U ch) content;
               content = join_sp (split U content)
           in if length content < 15 then None
              else Some (NFKC U content))"

text \<open>
  The text of lines 78--84, before the length gate of line 85 and the NFKC normalisation
  of line 89: trimmed, control characters removed, whitespace runs collapsed. The gate
  of \<open>sanitize\<close> measures this text, and what \<open>sanitize\<close> returns is its normalisation
  (\<open>sanitize_clean\<close>).
\<close>

definition clean :: "unicode \<Rightarrow> string \<Rightarrow> string" where
  "clean U page = join_sp (split U (filter (\<lambda>ch. \<not> category_C U ch) (strip U page)))"

text \<open>
  What an embedding call can return: a float (finite or not), a list or tuple of
  values, or a value that \<open>float()\<close> rejects.
\<close>

datatype pyfloat = Fin real | NaN | PosInf | NegInf

datatype pyval = Num pyfloat | Lst "pyval list" | Other

fun isfinite :: "pyfloat \<Rightarrow> bool" where
  "isfinite (Fin r) = True"
| "isfinite v = False"

text \<open>
  \<open>SafeOllamaEmbeddings._sanitize_vector\<close>: flatten, convert each leaf with \<open>float()\<close>,
  and replace what is not finite or not convertible by \<open>0.0\<close>.
\<close>

fun flatten :: "pyval \<Rightarrow> pyval list" where
  "flatten (Lst xs) = concat (map flatten xs)"
| "flatten v = [v]"

fun to_safe_float :: "pyval \<Rightarrow> pyfloat" where
  "to_safe_float (Num (Fin r)) = Fin r"
| "to_safe_float v = Fin 0"

definition sanitize_vector :: "pyval \<Rightarrow> pyfloat list" where
  "sanitize_vector vec = map to_safe_float (flatten vec)"

text \<open>
  The embedding provider (\<open>OllamaEmbeddings.embed_query\<close>) is external and may fail
  on one call and answer on the next. It is an oracle: \<open>raw clock txt\<close> is its answer to
  the call number \<open>clock\<close>, \<open>None\<close> when it raises. Every function that calls it returns
  the advanced clock.

  \<open>SafeOllamaEmbeddings.embed_query\<close> makes up to two calls. When both raise, the
  version of embeddings.py raises the last exception (\<open>None\<close> here); the version of
  multiVideo.py returns the vector \<open>[0.0]\<close>.
\<close>

type_synonym provider = "nat \<Rightarrow> string \<Rightarrow> pyval option"

fun embed_query_from :: "nat \<Rightarrow> provider \<Rightarrow> nat \<Rightarrow> string \<Rightarrow> pyfloat list option \<times> nat" where
  "embed_query_from 0 raw clock txt = (None, clock)"
| "embed_query_from (Suc attempts) raw clock txt =
     (case raw clock txt of
        Some v \<Rightarrow> (Some (sanitize_vector v), Suc clock)
      | None \<Rightarrow> embed_query_from attempts raw (Suc clock) txt)"

definition embed_query :: "provider \<Rightarrow> nat \<Rightarrow> string \<Rightarrow> pyfloat list option \<times> nat" where
  "embed_query raw clock txt = embed_query_from 2 raw clock txt"

definition embed_query_mv :: "provider \<Rightarrow> nat \<Rightarrow> string \<Rightarrow> pyfloat list option \<times> nat" where
  "embed_query_mv raw clock txt =
     (case embed_query_from 2 raw clock txt of
        (Some v, clock') \<Rightarrow> (Some v, clock')
      | (None, clock') \<Rightarrow> (Some [Fin 0], clock'))"

text \<open>
  The checks of one validation attempt on the flattened vector: embeddings.py rejects
  an empty vector, one shorter than 100 and one with a NaN or an infinity; multiVideo.py
  has no length bound beyond non-emptiness.
\<close>

definition embedding_ok :: "pyfloat list \<Rightarrow> bool" where
  "embedding_ok flat = (if flat = [] \<or> length flat < 100 then False
                        else if list_ex (\<lambda>v. \<not> isfinite v) flat then False else True)"

definition embedding_ok_mv :: "pyfloat list \<Rightarrow> bool" where
  "embedding_ok_mv flat = (if flat = [] then False
                           else if list_ex (\<lambda>v. \<not> isfinite v) flat then False else True)"

text \<open>
  The retry loop \<open>for attempt in range(2)\<close> of the validator: an attempt fails when the
  embedding call raises or a check raises \<open>ValueError\<close>.
\<close>

type_synonym embedder = "nat \<Rightarrow> string \<Rightarrow> pyfloat list option \<times> nat"

fun attempt_embedding :: "nat \<Rightarrow> embedder \<Rightarrow> (pyfloat list \<Rightarrow> bool) \<Rightarrow> nat \<Rightarrow> string \<Rightarrow> bool \<times> nat" where
  "attempt_embedding 0 embed_fn ok clock content = (False, clock)"
| "attempt_embedding (Suc attempts) embed_fn ok clock content =
     (case embed_fn clock content of
        (Some vec, clock') \<Rightarrow>
          if ok vec then (True, clock') else attempt_embedding attempts embed_fn ok clock' content
      | (None, clock') \<Rightarrow> attempt_embedding attempts embed_fn ok clock' content)"

text \<open>
  The loop over the chunks. \<open>validated_chunks\<close> is the list the function returns. The
  field \<open>dropped\<close> is a log that the source does not keep: it records the sanitised text
  of every chunk that reaches the branch "nothing to merge into", taken when all
  attempts failed and \<open>validated_chunks\<close> is still empty.
\<close>

record validation =
  validated_chunks :: "document list"
  dropped :: "string list"
  clock :: nat

fun validate_loop ::
  "unicode \<Rightarrow> embedder \<Rightarrow> (pyfloat list \<Rightarrow> bool) \<Rightarrow> document list \<Rightarrow> validation \<Rightarrow> validation" where
  "validate_loop U embed_fn ok [] st = st"
| "validate_loop U embed_fn ok (chunk # chunks) st =
     (case sanitize U (page_content chunk) of
        None \<Rightarrow> validate_loop U embed_fn ok chunks st
      | Some content \<Rightarrow>
          (case attempt_embedding 2 embed_fn ok (clock st) content of
             (True, clock') \<Rightarrow>
               validate_loop U embed_fn ok chunks
                 (st\<lparr>validated_chunks := validated_chunks st @
                        [\<lparr>page_content = content, metadata = metadata chunk\<rparr>],
                     clock := clock'\<rparr>)
           | (False, clock') \<Rightarrow>
               if validated_chunks st \<noteq> [] then
                 let prev = last (validated_chunks st);
                     merged = page_content prev @ '' '' @ content
                 in validate_loop U embed_fn ok chunks
                      (st\<lparr>validated_chunks := butlast (validated_chunks st) @
                             [\<lparr>page_content = merged, metadata = metadata prev\<rparr>],
                          clock := clock'\<rparr>)
               else
                 validate_loop U embed_fn ok chunks
                   (st\<lparr>dropped := dropped st @ [content], clock := clock'\<rparr>)))"

definition validate_chunks_for_embeddings :: "unicode \<Rightarrow> provider \<Rightarrow> nat \<Rightarrow> document list \<Rightarrow> validation" where
  "validate_chunks_for_embeddings U raw clock0 chunks =
     validate_loop U (embed_query raw) embedding_ok chunks
       \<lparr>validated_chunks = [], dropped = [], clock = clock0\<rparr>"

definition validate_chunks_for_embeddings_mv :: "unicode \<Rightarrow> provider \<Rightarrow> nat \<Rightarrow> document list \<Rightarrow> validation" where
  "validate_chunks_for_embeddings_mv U raw clock0 chunks =
     validate_loop U (embed_query_mv raw) embedding_ok_mv chunks
       \<lparr>validated_chunks = [], dropped = [], clock = clock0\<rparr>"

text \<open>
  The chunks that failed validation with no predecessor to merge into, read off the
  input alone: going through the chunks from clock \<open>clock0\<close>, the normalised text of every
  chunk that passes the length gate and whose two attempts both fail, up to the first
  chunk with a successful attempt.
\<close>

fun failed_without_predecessor ::
  "unicode \<Rightarrow> embedder \<Rightarrow> (pyfloat list \<Rightarrow> bool) \<Rightarrow> nat \<Rightarrow> document list \<Rightarrow> string list" where
  "failed_without_predecessor U embed_fn ok clock0 [] = []"
| "failed_without_predecessor U embed_fn ok clock0 (chunk # chunks) =
     (if length (clean U (page_content chunk)) < 15
      then failed_without_predecessor U embed_fn ok clock0 chunks
      else (case attempt_embedding 2 embed_fn ok clock0 (NFKC U (clean U (page_content chunk))) of
              (True, clock') \<Rightarrow> []
            | (False, clock') \<Rightarrow>
                NFKC U (clean U (page_content chunk))
                  # failed_without_predecessor U embed_fn ok clock' chunks))"

text \<open>Characters kept or logged by a validation state.\<close>

definition kept_chars :: "validation \<Rightarrow> nat" where
  "kept_chars st =
     sum_list (map (\<lambda>d. length (page_content d)) (validated_chunks st)) +
     sum_list (map length (dropped st))"

text \<open>
  A returned chunk \<open>d\<close> carries embedded text, for a run of the validator on \<open>chunks\<close>
  that made the embedder calls \<open>clock0\<close> up to \<open>clock1 - 1\<close>, when some input chunk has
  the metadata of \<open>d\<close>, its sanitised text is how the content of \<open>d\<close> starts, and one of
  the calls of the run on that text returned a vector that passed the checks. What
  follows the text in \<open>d\<close> is what the chunk absorbed by merging.
\<close>

definition carries_embedded_text ::
  "unicode \<Rightarrow> embedder \<Rightarrow> (pyfloat list \<Rightarrow> bool) \<Rightarrow> document list \<Rightarrow> nat \<Rightarrow> nat \<Rightarrow> document \<Rightarrow> bool" where
  "carries_embedded_text U embed_fn ok chunks clock0 clock1 d =
     list_ex (\<lambda>chunk.
        case sanitize U (page_content chunk) of
          None \<Rightarrow> False
        | Some content \<Rightarrow>
            metadata d = metadata chunk \<and>
            take (length content) (page_content d) = content \<and>
            list_ex (\<lambda>c. case embed_fn c content of
                            (Some vec, c') \<Rightarrow> ok vec \<and> c' \<le> clock1
                          | (None, c') \<Rightarrow> False)
              [clock0..<clock1]) chunks"


section \<open>Evidence Quality Filter: \<open>is_low_quality_text\<close>, \<open>format_evidence\<close> (retriever.py, multiVideo.py)\<close>

text \<open>
  \<open>py_join sep xs\<close> is \<open>sep.join(xs)\<close>, \<open>last_n n xs\<close> the slice \<open>xs[-n:]\<close>, \<open>pad2\<close> the
  format \<open>{:02d}\<close>.
\<close>

definition newline :: string where
  "newline = [CHR 0x0A]"

fun py_join :: "string \<Rightarrow> string list \<Rightarrow> string" where
  "py_join sep [] = []"
| "py_join sep [x] = x"
| "py_join sep (x # y # ys) = x @ sep @ py_join sep (y # ys)"

definition last_n :: "nat \<Rightarrow> 'a list \<Rightarrow> 'a list" where
  "last_n n xs = drop (length xs - n) xs"

definition pad2 :: "int \<Rightarrow> string" where
  "pad2 i = (let t = str_int i in if length t < 2 then ''0'' @ t else t)"

definition sec_to_mmss :: "int \<Rightarrow> string" where
  "sec_to_mmss s = (let m = s div 60; sec = s mod 60 in pad2 m @ '':'' @ pad2 sec)"

text \<open>\<open>re.search(r"[,.\?\!]{3,}", txt)\<close>: three consecutive characters of the class.\<close>

fun has_punct_run :: "string \<Rightarrow> bool" where
  "has_punct_run (a # b # c # rest) =
     ((a \<in> set '',.?!'' \<and> b \<in> set '',.?!'' \<and> c \<in> set '',.?!'') \<or> has_punct_run (b # c # rest))"
| "has_punct_run rest = False"

text \<open>
  The heuristic, test by test in the order of the source. The three ratios are float
  divisions compared with \<open>0.25\<close>, \<open>0.4\<close> and \<open>0.6\<close>; they are taken in the reals here. A
  token matches \<open>[\d,.\-]+\<close> entirely when it is non-empty and all its characters are
  in the class.
\<close>

definition is_low_quality_text :: "unicode \<Rightarrow> string \<Rightarrow> nat \<Rightarrow> bool" where
  "is_low_quality_text U s min_len =
     (if s = [] then True
      else
        let txt = strip U s in
        if length txt < min_len then True
        else
          let tokens = split U txt in
          if tokens = [] then True
          else
            let one_char = length (filter (\<lambda>t. length t = 1) tokens) in
            if real one_char / real (max 1 (length tokens)) > 0.25 then True
            else
              let non_alnum =
                    length (filter (\<lambda>t. \<not> list_ex (\<lambda>ch. isalpha U ch \<or> isdigit U ch) t) tokens) in
              if real non_alnum / real (max 1 (length tokens)) > 0.4 then True
              else if has_punct_run txt then True
              else
                let numeric_tokens =
                      length (filter (\<lambda>t. t \<noteq> [] \<and> list_all (\<lambda>ch. isdecimal U ch \<or> ch \<in> set '',.-'') t)
                                tokens) in
                if real numeric_tokens / real (max 1 (length tokens)) > 0.6 then True
                else False)"

record stats =
  kept :: nat
  dropped_count :: nat

definition replace_newlines :: "string \<Rightarrow> string" where
  "replace_newlines s = map (\<lambda>c. if c = CHR 0x0A then CHR '' '' else c) s"

text \<open>
  The loop of \<open>format_evidence\<close> with its variables \<open>kept_lines\<close>, \<open>dropped\<close> and \<open>kept\<close>.
\<close>

fun format_loop :: "unicode \<Rightarrow> bool \<Rightarrow> document list \<Rightarrow> string list \<Rightarrow> nat \<Rightarrow> nat \<Rightarrow> string list \<times> nat \<times> nat" where
  "format_loop U filter_low_quality [] kept_lines n_dropped n_kept = (kept_lines, n_dropped, n_kept)"
| "format_loop U filter_low_quality (d # docs) kept_lines n_dropped n_kept =
     (let content = replace_newlines (strip U (page_content d)) in
      if filter_low_quality \<and> is_low_quality_text U content 15 then
        format_loop U filter_low_quality docs kept_lines (n_dropped + 1) n_kept
      else
        let s = start (metadata d);
            ts = sec_to_mmss s;
            quote = (if length content > 280 then take 277 content @ ''...'' else content)
        in format_loop U filter_low_quality docs
             (kept_lines @ [''['' @ ts @ ''] '' @ quote]) n_dropped (n_kept + 1))"

definition format_evidence :: "unicode \<Rightarrow> document list \<Rightarrow> bool \<Rightarrow> string \<times> stats" where
  "format_evidence U docs filter_low_quality =
     (if docs = [] then (''No transcript evidence found.'', \<lparr>kept = 0, dropped_count = 0\<rparr>)
      else
        case format_loop U filter_low_quality docs [] 0 0 of
          (kept_lines, n_dropped, n_kept) \<Rightarrow>
            if n_kept = 0 then
              (''No good transcript evidence found (most retrieved segments were low-quality).'',
               \<lparr>kept = n_kept, dropped_count = n_dropped\<rparr>)
            else (py_join newline kept_lines, \<lparr>kept = n_kept, dropped_count = n_dropped\<rparr>))"


section \<open>Sessions, collaborators and the chat turn (pipeline.py, multiVideo.py)\<close>

text \<open>
  \<open>video_info\<close> is the metadata dictionary of a video, \<open>processed_video\<close> the dictionary
  that \<open>process_video\<close> returns. \<open>Chroma\<close> stands for the index handle that
  \<open>Chroma.from_documents\<close> returns, with its collection name and documents. A prompt is
  its template and the values that fill it, so that the calls of the generation model
  can be told apart; the wording of the templates is not modelled.
\<close>

record video_info =
  info_video_id :: string
  title :: string
  channel :: string
  date :: string
  description :: string

datatype vectorstore = Chroma string "document list"

record processed_video =
  pv_video_id :: string
  pv_metadata :: video_info
  pv_chunks :: "document list"
  pv_dynamic_k :: int
  pv_vectorstore :: "vectorstore option"

datatype message = HumanMessage string | AIMessage string

datatype prompt =
    ROUTER_PROMPT string string bool
  | RAG_PROMPT string string string int string string
  | SUMMARY_PROMPT string string
  | FALLBACK_PROMPT string string string string string
  | COMPARISON_PROMPT string string string string string string

text \<open>
  The external collaborators. The two retriever fields are the methods \<open>invoke\<close> and
  \<open>get_relevant_documents\<close> of the retriever built over an index with a result count;
  \<open>llm\<close> is \<open>open_router_model\<close> behind every chain, with the number of earlier calls as
  its first argument. In each case \<open>None\<close> stands for a raised exception. For the router
  chain the value is the route that the output parser extracts. \<open>try_lock\<close> is the outcome
  of \<open>lock.acquire(blocking=False)\<close>, and \<open>interference\<close> what other threads did to
  \<open>retrieval_cache\<close> between the two lookups of \<open>get_structured_docs\<close>.
\<close>

record world =
  unicode_db :: unicode
  fetch_video_metadata :: "string \<Rightarrow> video_info"
  fetch_transcript_fragments :: "string \<Rightarrow> fragment list"
  split_documents :: "nat \<Rightarrow> nat \<Rightarrow> document list \<Rightarrow> document list"
  embedding_provider :: provider
  retriever_invoke :: "vectorstore \<Rightarrow> int \<Rightarrow> string \<Rightarrow> document list option"
  retriever_get_relevant_documents :: "vectorstore \<Rightarrow> int \<Rightarrow> string \<Rightarrow> document list option"
  llm :: "nat \<Rightarrow> prompt \<Rightarrow> string option"
  try_lock :: "string \<Rightarrow> bool"
  interference :: "(string \<rightharpoonup> document list) \<Rightarrow> (string \<rightharpoonup> document list)"

text \<open>
  The mutable state: the three entries of a session of pipeline.py (the history is the
  \<open>history\<close> argument in multiVideo.py), the module-level \<open>retrieval_cache\<close> of
  multiVideo.py, and two logs the source does not keep: the number of calls made to the
  embedding provider and the prompts sent to the generation model so far.
\<close>

record state =
  history :: "message list"
  processed_videos :: "string \<rightharpoonup> processed_video"
  summary_cache :: "string \<rightharpoonup> string"
  retrieval_cache :: "string \<rightharpoonup> document list"
  embed_clock :: nat
  llm_calls :: "prompt list"

record chat_result =
  response :: string
  intent :: string
  sources :: "(int \<times> string) list"

record compare_result =
  cmp_response :: string
  cmp_intent :: string
  video_a :: "video_info option"
  video_b :: "video_info option"

definition invoke_llm :: "world \<Rightarrow> state \<Rightarrow> prompt \<Rightarrow> string option \<times> state" where
  "invoke_llm w s p = (llm w (length (llm_calls s)) p, s\<lparr>llm_calls := llm_calls s @ [p]\<rparr>)"

fun render_message :: "message \<Rightarrow> string" where
  "render_message (HumanMessage content) = ''human: '' @ content"
| "render_message (AIMessage content) = ''ai: '' @ content"

definition add_turn :: "string \<Rightarrow> string \<Rightarrow> state \<Rightarrow> state" where
  "add_turn user_text ai_text s =
     s\<lparr>history := history s @ [HumanMessage user_text, AIMessage ai_text]\<rparr>"

text \<open>
  \<open>create_vectorstore_for_video\<close> of retriever.py and of multiVideo.py; each uses the
  validator of its own file. The \<open>setdefault\<close> of \<open>video_id\<close> changes nothing, since every
  document carries the key.
\<close>

definition create_vectorstore_for_video ::
  "world \<Rightarrow> nat \<Rightarrow> string \<Rightarrow> document list \<Rightarrow> string \<Rightarrow> vectorstore option \<times> nat" where
  "create_vectorstore_for_video w clock0 vid chunks collection_name =
     (let v = validate_chunks_for_embeddings (unicode_db w) (embedding_provider w) clock0 chunks
      in if validated_chunks v = [] then (None, clock v)
         else (Some (Chroma collection_name (validated_chunks v)), clock v))"

definition create_vectorstore_for_video_mv ::
  "world \<Rightarrow> nat \<Rightarrow> string \<Rightarrow> document list \<Rightarrow> string \<Rightarrow> vectorstore option \<times> nat" where
  "create_vectorstore_for_video_mv w clock0 vid chunks collection_name =
     (let v = validate_chunks_for_embeddings_mv (unicode_db w) (embedding_provider w) clock0 chunks
      in if validated_chunks v = [] then (None, clock v)
         else (Some (Chroma collection_name (validated_chunks v)), clock v))"

definition process_video :: "world \<Rightarrow> state \<Rightarrow> string \<Rightarrow> processed_video \<times> state" where
  "process_video w s video_url =
     (let vid = extract_video_id video_url
      in case processed_videos s vid of
           Some cached \<Rightarrow> (cached, s)
         | None \<Rightarrow>
             (let info = fetch_video_metadata w vid
              in case ingest_video_to_chunks (split_documents w) vid (fetch_transcript_fragments w vid) of
                   (chunks, k) \<Rightarrow>
                     (case (if chunks \<noteq> []
                            then create_vectorstore_for_video w (embed_clock s) vid chunks (''youtube-'' @ vid)
                            else (None, embed_clock s)) of
                        (vs, clock') \<Rightarrow>
                          (let result = \<lparr>pv_video_id = vid, pv_metadata = info, pv_chunks = chunks,
                                          pv_dynamic_k = k, pv_vectorstore = vs\<rparr>
                           in (result,
                               s\<lparr>processed_videos := (processed_videos s)(vid \<mapsto> result),
                                  embed_clock := clock'\<rparr>)))))"

text \<open>
  \<open>get_intent\<close>: the parser accepts the routes of the router class only, and every
  failure of the chain defaults to \<open>RAG\<close>.
\<close>

definition get_intent :: "world \<Rightarrow> state \<Rightarrow> string \<Rightarrow> message list \<Rightarrow> bool \<Rightarrow> string \<times> state" where
  "get_intent w s query msgs multi_mode =
     (let recent_history = py_join newline (map render_message (last_n 4 msgs))
      in case invoke_llm w s (ROUTER_PROMPT recent_history query multi_mode) of
           (Some route, s') \<Rightarrow>
             (if route \<in> (if multi_mode then {''SUMMARY'', ''RAG'', ''COMPARE'', ''DUAL_SUMMARY''}
                           else {''SUMMARY'', ''RAG''})
              then (route, s') else (''RAG'', s'))
         | (None, s') \<Rightarrow> (''RAG'', s'))"

definition get_universal_summary ::
  "world \<Rightarrow> state \<Rightarrow> document list \<Rightarrow> video_info \<Rightarrow> string option \<times> state" where
  "get_universal_summary w s chunks info =
     invoke_llm w s (SUMMARY_PROMPT (title info) (prepare_text chunks))"

definition rag_context :: "document list \<Rightarrow> string" where
  "rag_context good_docs =
     py_join (newline @ newline)
       (map (\<lambda>d. ''['' @ str_int (start (metadata d)) @ ''s]: '' @ page_content d) good_docs)"

definition first_start :: "document list \<Rightarrow> int" where
  "first_start good_docs = (case good_docs of [] \<Rightarrow> 0 | d # rest \<Rightarrow> start (metadata d))"

text \<open>
  \<open>chat_with_video\<close> of pipeline.py. The result is \<open>None\<close> when an exception leaves the
  function (the summary call is not guarded).
\<close>

definition chat_with_video :: "world \<Rightarrow> state \<Rightarrow> string \<Rightarrow> string \<Rightarrow> chat_result option \<times> state" where
  "chat_with_video w s video_url user_message =
     (let vid = extract_video_id video_url
      in case process_video w s video_url of
           (processed, s1) \<Rightarrow>
             (case (if pv_chunks processed = [] then None else pv_vectorstore processed) of
                None \<Rightarrow>
                  (Some \<lparr>response = ''Transcript not available for video '' @ vid @
                                     ''. Please provide a video with captions.'',
                         intent = ''ERROR'', sources = []\<rparr>, s1)
              | Some vs \<Rightarrow>
                  (case get_intent w s1 user_message (history s1) False of
                     (route, s2) \<Rightarrow>
                       if route = ''SUMMARY'' then
                         (case summary_cache s2 vid of
                            Some summary \<Rightarrow>
                              (Some \<lparr>response = summary, intent = ''SUMMARY'', sources = []\<rparr>,
                               add_turn user_message summary s2)
                          | None \<Rightarrow>
                              (case get_universal_summary w s2 (pv_chunks processed) (pv_metadata processed) of
                                 (None, s3) \<Rightarrow> (None, s3)
                               | (Some summary, s3) \<Rightarrow>
                                   (Some \<lparr>response = summary, intent = ''SUMMARY'', sources = []\<rparr>,
                                    add_turn user_message summary
                                      (s3\<lparr>summary_cache := (summary_cache s3)(vid \<mapsto> summary)\<rparr>))))
                       else
                         (case retriever_invoke w vs (pv_dynamic_k processed) user_message of
                            None \<Rightarrow>
                              (Some \<lparr>response = ''Error retrieving relevant documents.'',
                                     intent = ''ERROR'', sources = []\<rparr>, s2)
                          | Some retrieved_docs \<Rightarrow>
                              (let good_docs =
                                     filter (\<lambda>d. \<not> is_low_quality_text (unicode_db w) (page_content d) 15)
                                       retrieved_docs;
                                   context_text = rag_context good_docs;
                                   timestamp = first_start good_docs;
                                   history_str = py_join newline (map render_message (last_n 6 (history s2)))
                               in case invoke_llm w s2
                                         (RAG_PROMPT context_text user_message vid timestamp history_str
                                            (title (pv_metadata processed))) of
                                    (Some result, s3) \<Rightarrow>
                                      (Some \<lparr>response = result, intent = ''RAG'',
                                             sources = map (\<lambda>d. (start (metadata d), vid)) (take 3 good_docs)\<rparr>,
                                       add_turn user_message result s3)
                                  | (None, s3) \<Rightarrow>
                                      (Some \<lparr>response = ''Error generating an answer.'',
                                             intent = ''ERROR'', sources = []\<rparr>, s3))))))"

text \<open>\<open>compare_videos\<close> of pipeline.py; \<open>or_5 k\<close> is \<open>k or 5\<close>.\<close>

definition metadata_str :: "video_info \<Rightarrow> string" where
  "metadata_str info =
     ''video_id: '' @ info_video_id info @ newline @
     ''title: '' @ title info @ newline @
     ''channel: '' @ channel info @ newline @
     ''date: '' @ date info @ newline @
     ''description: '' @ take 400 (description info)"

definition or_5 :: "int \<Rightarrow> int" where
  "or_5 k = (if k = 0 then 5 else k)"

definition side_evidence :: "world \<Rightarrow> processed_video \<Rightarrow> string \<Rightarrow> string" where
  "side_evidence w proc question =
     (case pv_vectorstore proc of
        None \<Rightarrow> ''No evidence available.''
      | Some vs \<Rightarrow>
          (case retriever_invoke w vs (or_5 (pv_dynamic_k proc)) question of
             None \<Rightarrow> ''No evidence available.''
           | Some docs \<Rightarrow> fst (format_evidence (unicode_db w) docs True)))"

definition compare_videos :: "world \<Rightarrow> state \<Rightarrow> string \<Rightarrow> string \<Rightarrow> string \<Rightarrow> compare_result \<times> state" where
  "compare_videos w s url1 url2 question =
     (case process_video w s url1 of
        (proc_a, s1) \<Rightarrow>
          (case process_video w s1 url2 of
             (proc_b, s2) \<Rightarrow>
               if pv_vectorstore proc_a = None \<and> pv_vectorstore proc_b = None then
                 (\<lparr>cmp_response = ''Transcripts missing for both videos. Cannot compare.'',
                   cmp_intent = ''ERROR'', video_a = None, video_b = None\<rparr>, s2)
               else
                 (let evidence_a_text = side_evidence w proc_a question;
                      evidence_b_text = side_evidence w proc_b question
                  in case invoke_llm w s2
                            (COMPARISON_PROMPT [] question (metadata_str (pv_metadata proc_a))
                               (metadata_str (pv_metadata proc_b)) evidence_a_text evidence_b_text) of
                       (Some content, s3) \<Rightarrow>
                         (\<lparr>cmp_response = content, cmp_intent = ''COMPARE'',
                           video_a = Some (pv_metadata proc_a), video_b = Some (pv_metadata proc_b)\<rparr>,
                          add_turn question content s3)
                     | (None, s3) \<Rightarrow>
                         (\<lparr>cmp_response = ''Error during comparison.'', cmp_intent = ''ERROR'',
                           video_a = None, video_b = None\<rparr>, s3))))"


text \<open>
  \<open>process_and_store_video\<close> and \<open>answer_question_single\<close> of multiVideo.py. The
  metadata-only prompt of the branch \<open>stats["kept"] == 0\<close> is \<open>FALLBACK_PROMPT\<close>.
\<close>

definition process_and_store_video :: "world \<Rightarrow> state \<Rightarrow> string \<Rightarrow> processed_video \<times> state" where
  "process_and_store_video w s video_url_or_id =
     (let vid = extract_video_id video_url_or_id;
          info = fetch_video_metadata w vid
      in case ingest_video_to_chunks (split_documents w) vid (fetch_transcript_fragments w vid) of
           (chunks, k) \<Rightarrow>
             if chunks = [] then
               (\<lparr>pv_video_id = vid, pv_metadata = info, pv_chunks = [], pv_dynamic_k = k,
                 pv_vectorstore = None\<rparr>, s)
             else
               (case create_vectorstore_for_video_mv w (embed_clock s) vid chunks (''youtube-'' @ vid) of
                  (vs, clock') \<Rightarrow>
                    (\<lparr>pv_video_id = vid, pv_metadata = info, pv_chunks = chunks, pv_dynamic_k = k,
                      pv_vectorstore = vs\<rparr>, s\<lparr>embed_clock := clock'\<rparr>)))"

definition answer_question_single :: "world \<Rightarrow> state \<Rightarrow> string \<Rightarrow> string \<Rightarrow> string option \<times> state" where
  "answer_question_single w s video_url_or_id user_question =
     (case process_and_store_video w s video_url_or_id of
        (processed, s1) \<Rightarrow>
          (case (if pv_chunks processed = [] then None else pv_vectorstore processed) of
             None \<Rightarrow>
               (Some (''Transcript not available for video '' @ pv_video_id processed @
                      ''. Please enable captions or provide a transcript.''), s1)
           | Some vs \<Rightarrow>
               (case (case retriever_get_relevant_documents w vs (pv_dynamic_k processed) user_question of
                        Some docs \<Rightarrow> Some docs
                      | None \<Rightarrow> retriever_invoke w vs (pv_dynamic_k processed) user_question) of
                  None \<Rightarrow> (Some ''Error retrieving relevant documents.'', s1)
                | Some retrieved_docs \<Rightarrow>
                    (case format_evidence (unicode_db w) retrieved_docs True of
                       (evidence_text, st) \<Rightarrow>
                         if kept st = 0 then
                           (case invoke_llm w s1
                                   (FALLBACK_PROMPT user_question (title (pv_metadata processed))
                                      (channel (pv_metadata processed)) (date (pv_metadata processed))
                                      (description (pv_metadata processed))) of
                              (Some content, s2) \<Rightarrow> (Some content, add_turn user_question content s2)
                            | (None, s2) \<Rightarrow> (None, s2))
                         else
                           (let good_docs =
                                  filter (\<lambda>d. \<not> is_low_quality_text (unicode_db w) (page_content d) 15)
                                    retrieved_docs;
                                context_text = rag_context good_docs;
                                seconds = first_start good_docs;
                                history_str = py_join newline (map render_message (last_n 6 (history s1)))
                            in case invoke_llm w s1
                                      (RAG_PROMPT context_text user_question (pv_video_id processed) seconds
                                         history_str (title (pv_metadata processed))) of
                                 (Some result, s2) \<Rightarrow> (Some result, add_turn user_question result s2)
                               | (None, s2) \<Rightarrow> (Some ''Error generating an answer.'', s2))))))"

section \<open>Retrieval Cache: \<open>get_structured_docs\<close> (multiVideo.py)\<close>

text \<open>
  \<open>dedupe\<close> is the loop of the contended path, which stores \<open>merged[:k]\<close>; \<open>dedupe_trim\<close>
  the loop of the main path, which leaves as soon as \<open>len(final) >= k\<close> after an append.
  The keys are \<open>(video_id, start)\<close>; \<open>start\<close> is an integer already, so the \<open>int()\<close> of
  the main path changes nothing. The count bound \<open>k\<close> is a natural number.
\<close>

definition doc_key :: "document \<Rightarrow> string \<times> int" where
  "doc_key d = (video_id (metadata d), start (metadata d))"

fun dedupe :: "document list \<Rightarrow> (string \<times> int) set \<Rightarrow> document list \<Rightarrow> document list" where
  "dedupe [] seen merged = merged"
| "dedupe (d # docs) seen merged =
     (if doc_key d \<in> seen then dedupe docs seen merged
      else dedupe docs (insert (doc_key d) seen) (merged @ [d]))"

fun dedupe_trim :: "nat \<Rightarrow> document list \<Rightarrow> (string \<times> int) set \<Rightarrow> document list \<Rightarrow> document list" where
  "dedupe_trim k [] seen_keys final = final"
| "dedupe_trim k (d # docs) seen_keys final =
     (if doc_key d \<in> seen_keys then dedupe_trim k docs seen_keys final
      else if length (final @ [d]) \<ge> k then final @ [d]
      else dedupe_trim k docs (insert (doc_key d) seen_keys) (final @ [d]))"

record retriever =
  get_relevant_documents :: "string \<Rightarrow> document list option"
  invoke :: "string \<Rightarrow> document list option"

definition build_self_query_retriever :: "world \<Rightarrow> vectorstore \<Rightarrow> int \<Rightarrow> retriever" where
  "build_self_query_retriever w vs k =
     \<lparr>get_relevant_documents = retriever_get_relevant_documents w vs k,
      invoke = retriever_invoke w vs k\<rparr>"

text \<open>
  \<open>get_structured_docs\<close>, from the cache at the first lookup, the outcome of the
  non-blocking acquire, and the cache at the second lookup. A missing retriever
  (\<open>None\<close>) raises on every method call.
\<close>

definition get_structured_docs ::
  "(string \<rightharpoonup> document list) \<Rightarrow> bool \<Rightarrow> (string \<rightharpoonup> document list) \<Rightarrow> string \<Rightarrow>
     retriever option \<Rightarrow> string \<Rightarrow> nat \<Rightarrow> document list \<times> (string \<rightharpoonup> document list)" where
  "get_structured_docs cache acquired cache_later vectorstore_id retr user_query k =
     (let cache_key = vectorstore_id @ ''__'' @ user_query
      in case cache cache_key of
           Some hit \<Rightarrow> (take k hit, cache)
         | None \<Rightarrow>
             if \<not> acquired then
               (case cache_later cache_key of
                  Some hit \<Rightarrow> (take k hit, cache_later)
                | None \<Rightarrow>
                    (case (case retr of None \<Rightarrow> None | Some r \<Rightarrow> get_relevant_documents r user_query) of
                       Some docs \<Rightarrow>
                         (let merged = dedupe docs {} []
                          in (take k merged, cache_later(cache_key \<mapsto> take k merged)))
                     | None \<Rightarrow> ([], cache_later)))
             else
               (let docs =
                      (case (case retr of None \<Rightarrow> None | Some r \<Rightarrow> get_relevant_documents r user_query) of
                         Some docs \<Rightarrow> docs
                       | None \<Rightarrow>
                           (case (case retr of None \<Rightarrow> None | Some r \<Rightarrow> invoke r user_query) of
                              Some docs \<Rightarrow> docs
                            | None \<Rightarrow> []));
                    final = dedupe_trim k docs {} []
                in (final, cache(cache_key \<mapsto> final))))"

text \<open>\<open>compare_videos\<close> of multiVideo.py.\<close>

definition metadata_str_mv :: "video_info \<Rightarrow> stats \<Rightarrow> string" where
  "metadata_str_mv info st =
     metadata_str info @ newline @
     ''(evidence_kept: '' @ str_nat (kept st) @ '', evidence_dropped: '' @ str_nat (dropped_count st) @ '')''"

definition cached_docs ::
  "world \<Rightarrow> state \<Rightarrow> string \<Rightarrow> processed_video \<Rightarrow> string \<Rightarrow> nat \<Rightarrow> document list \<times> state" where
  "cached_docs w s vectorstore_id proc user_question top_k =
     (let retr = (case pv_vectorstore proc of
                    None \<Rightarrow> None
                  | Some vs \<Rightarrow> Some (build_self_query_retriever w vs (or_5 (pv_dynamic_k proc))))
      in case get_structured_docs (retrieval_cache s)
                (try_lock w (vectorstore_id @ ''__'' @ user_question))
                (interference w (retrieval_cache s)) vectorstore_id retr user_question top_k of
           (docs, cache') \<Rightarrow> (docs, s\<lparr>retrieval_cache := cache'\<rparr>))"

definition compare_videos_mv ::
  "world \<Rightarrow> state \<Rightarrow> string \<Rightarrow> string \<Rightarrow> string \<Rightarrow> nat \<Rightarrow> string \<times> state" where
  "compare_videos_mv w s video_a_url_or_id video_b_url_or_id user_question top_k =
     (case process_and_store_video w s video_a_url_or_id of
        (proc_a, s1) \<Rightarrow>
          (case process_and_store_video w s1 video_b_url_or_id of
             (proc_b, s2) \<Rightarrow>
               if (pv_chunks proc_a = [] \<or> pv_vectorstore proc_a = None) \<and>
                  (pv_chunks proc_b = [] \<or> pv_vectorstore proc_b = None) then
                 (''INSUFFICIENT_DATA: Transcripts missing for both videos. Please provide videos with captions or transcripts.'',
                  s2)
               else
                 (case cached_docs w s2 (''youtube-'' @ extract_video_id video_a_url_or_id) proc_a
                         user_question top_k of
                    (docs_a, s3) \<Rightarrow>
                      (case cached_docs w s3 (''youtube-'' @ extract_video_id video_b_url_or_id) proc_b
                              user_question top_k of
                         (docs_b, s4) \<Rightarrow>
                           (case format_evidence (unicode_db w) docs_a True of
                              (evidence_a_text, stats_a) \<Rightarrow>
                                (case format_evidence (unicode_db w) docs_b True of
                                   (evidence_b_text, stats_b) \<Rightarrow>
                                     (let note =
                                            (if kept stats_a = 0 \<or> kept stats_b = 0 then
                                               ''NOTE: One or both videos have poor-quality transcripts (many segments were dropped). Rely more on metadata.''
                                                 @ newline @ newline
                                             else [])
                                      in case invoke_llm w s4
                                                (COMPARISON_PROMPT note user_question
                                                   (metadata_str_mv (pv_metadata proc_a) stats_a)
                                                   (metadata_str_mv (pv_metadata proc_b) stats_b)
                                                   evidence_a_text evidence_b_text) of
                                           (Some content, s5) \<Rightarrow>
                                             (content, add_turn user_question content s5)
                                         | (None, s5) \<Rightarrow>
                                             (''Error: comparison model invocation failed.'', s5))))))))"

section \<open>Concrete inputs\<close>

text \<open>
  A world without captions, embeddings, retrieval or generation, to be updated field by
  field, and small states and documents.
\<close>

definition demo_world :: world where
  "demo_world =
     \<lparr>unicode_db = ascii,
      fetch_video_metadata =
        (\<lambda>vid. \<lparr>info_video_id = vid, title = ''Unknown'', channel = ''Unknown'',
                 date = ''Unknown'', description = []\<rparr>),
      fetch_transcript_fragments = (\<lambda>vid. []),
      split_documents = (\<lambda>chunk_size chunk_overlap docs. docs),
      embedding_provider = (\<lambda>clock txt. None),
      retriever_invoke = (\<lambda>vs k query. None),
      retriever_get_relevant_documents = (\<lambda>vs k query. None),
      llm = (\<lambda>clock p. None),
      try_lock = (\<lambda>cache_key. True),
      interference = (\<lambda>cache. cache)\<rparr>"

definition initial_state :: state where
  "initial_state =
     \<lparr>history = [], processed_videos = Map.empty, summary_cache = Map.empty,
      retrieval_cache = Map.empty, embed_clock = 0, llm_calls = []\<rparr>"

definition demo_chunk :: document where
  "demo_chunk =
     \<lparr>page_content = ''[Timestamp: 0s] never gonna give you up never gonna let you down'',
      metadata = \<lparr>video_id = ''dQw4w9WgXcQ'', start = 0, end_sec = 8\<rparr>\<rparr>"

definition demo_processed :: processed_video where
  "demo_processed =
     \<lparr>pv_video_id = ''dQw4w9WgXcQ'',
      pv_metadata = \<lparr>info_video_id = ''dQw4w9WgXcQ'', title = ''Unknown'', channel = ''Unknown'',
                      date = ''Unknown'', description = []\<rparr>,
      pv_chunks = [demo_chunk], pv_dynamic_k = 1,
      pv_vectorstore = Some (Chroma ''youtube-dQw4w9WgXcQ'' [demo_chunk])\<rparr>"

definition processed_state :: state where
  "processed_state = initial_state\<lparr>processed_videos := [''dQw4w9WgXcQ'' \<mapsto> demo_processed]\<rparr>"

definition noisy_doc :: document where
  "noisy_doc = \<lparr>page_content = ''a a a a'',
                 metadata = \<lparr>video_id = ''dQw4w9WgXcQ'', start = 65, end_sec = 70\<rparr>\<rparr>"

definition routes_to_rag :: "nat \<Rightarrow> prompt \<Rightarrow> string option" where
  "routes_to_rag n p =
     (case p of ROUTER_PROMPT recent_history query multi_mode \<Rightarrow> Some ''RAG''
      | RAG_PROMPT c q v t h summ \<Rightarrow> Some ''It is a pop song.''
      | SUMMARY_PROMPT t f \<Rightarrow> Some ''It is a pop song.''
      | FALLBACK_PROMPT q t c d e \<Rightarrow> Some ''Not found in video transcript or metadata.''
      | COMPARISON_PROMPT n q a b e f \<Rightarrow> Some ''TIE'')"

text \<open>Every cached list is free of duplicate keys.\<close>

definition cache_ok :: "(string \<rightharpoonup> document list) \<Rightarrow> bool" where
  "cache_ok cache \<longleftrightarrow> (\<forall>cache_key hit. cache cache_key = Some hit \<longrightarrow> distinct (map doc_key hit))"

definition demo_retriever :: retriever where
  "demo_retriever =
     \<lparr>get_relevant_documents = (\<lambda>query. Some [demo_chunk, noisy_doc, demo_chunk]),
      invoke = (\<lambda>query. None)\<rparr>"

definition no_captions :: "string \<Rightarrow> processed_video" where
  "no_captions vid =
     \<lparr>pv_video_id = vid,
      pv_metadata = \<lparr>info_video_id = vid, title = ''Unknown'', channel = ''Unknown'',
                      date = ''Unknown'', description = []\<rparr>,
      pv_chunks = [], pv_dynamic_k = 5, pv_vectorstore = None\<rparr>"

section \<open>Properties of the result count policy\<close>

lemma nat_le_log2_iff:
  assumes "0 < x"
  shows "real m \<le> log 2 x \<longleftrightarrow> 2 ^ m \<le> x"
proof -
  have "real m \<le> log 2 x \<longleftrightarrow> 2 powr real m \<le> x"
    using assms by (subst le_log_iff) auto
  also have "(2::real) powr real m = 2 ^ m"
    by (simp add: powr_realpow)
  finally show ?thesis .
qed

lemma scaled_log2_ge_iff:
  assumes "0 < n"
  shows "real k \<le> log 2 (real n) * 1.5 \<longleftrightarrow> 2 ^ (2 * k) \<le> n ^ 3"
proof -
  have "real k \<le> log 2 (real n) * 1.5 \<longleftrightarrow> real (2 * k) \<le> 3 * log 2 (real n)"
    by auto
  also have "3 * log 2 (real n) = log 2 (real (n ^ 3))"
    using assms by (simp add: log_nat_power)
  also have "real (2 * k) \<le> log 2 (real (n ^ 3)) \<longleftrightarrow> (2::real) ^ (2 * k) \<le> real (n ^ 3)"
    using assms by (subst nat_le_log2_iff) auto
  also have "\<dots> \<longleftrightarrow> 2 ^ (2 * k) \<le> n ^ 3"
    by (metis of_nat_le_iff of_nat_numeral of_nat_power)
  finally show ?thesis .
qed

lemma half_scaled_log2_ge_iff:
  assumes "0 < n"
  shows "real k \<le> log 2 (real n) * 1.5 + 1 / 2 \<longleftrightarrow> 2 ^ (2 * k) \<le> 2 * n ^ 3"
proof -
  have "real k \<le> log 2 (real n) * 1.5 + 1 / 2 \<longleftrightarrow> real (2 * k) \<le> 3 * log 2 (real n) + 1"
    by auto
  also have "3 * log 2 (real n) + 1 = log 2 (real (2 * n ^ 3))"
    using assms by (simp add: log_nat_power log_mult)
  also have "real (2 * k) \<le> log 2 (real (2 * n ^ 3)) \<longleftrightarrow> (2::real) ^ (2 * k) \<le> real (2 * n ^ 3)"
    using assms by (subst nat_le_log2_iff) auto
  also have "\<dots> \<longleftrightarrow> 2 ^ (2 * k) \<le> 2 * n ^ 3"
    by (metis of_nat_le_iff of_nat_numeral of_nat_power)
  finally show ?thesis .
qed

text \<open>The truncated product is decided by comparing \<open>n ^ 3\<close> with powers of four.\<close>

lemma floor_scaled_log2:
  assumes "0 < n" and "2 ^ (2 * k) \<le> n ^ 3" and "n ^ 3 < 2 ^ (2 * Suc k)"
  shows "\<lfloor>log 2 (real n) * 1.5\<rfloor> = int k"
proof -
  have lo: "real k \<le> log 2 (real n) * 1.5"
    using assms(1,2) by (simp only: scaled_log2_ge_iff)
  have "\<not> real (Suc k) \<le> log 2 (real n) * 1.5"
    using assms(1,3) by (simp only: scaled_log2_ge_iff not_le)
  then have hi: "log 2 (real n) * 1.5 < real k + 1"
    by simp
  from lo hi show ?thesis
    by (simp add: floor_eq_iff)
qed

lemma round_scaled_log2:
  assumes "0 < n" and "2 ^ (2 * k) \<le> 2 * n ^ 3" and "2 * n ^ 3 < 2 ^ (2 * Suc k)"
  shows "round (log 2 (real n) * 1.5) = int k"
proof -
  have lo: "real k \<le> log 2 (real n) * 1.5 + 1 / 2"
    using assms(1,2) by (simp only: half_scaled_log2_ge_iff)
  have "\<not> real (Suc k) \<le> log 2 (real n) * 1.5 + 1 / 2"
    using assms(1,3) by (simp only: half_scaled_log2_ge_iff not_le)
  then have hi: "log 2 (real n) * 1.5 + 1 / 2 < real k + 1"
    by simp
  from lo hi show ?thesis
    unfolding round_def by (simp add: floor_eq_iff)
qed

lemma py_int_nonneg: "0 \<le> x \<Longrightarrow> py_int x = \<lfloor>x\<rfloor>"
  by (simp add: py_int_def)

lemma py_int_mono: "0 \<le> x \<Longrightarrow> x \<le> y \<Longrightarrow> py_int x \<le> py_int y"
  by (simp add: py_int_def floor_mono)

lemma dynamic_k_floor:
  "dynamic_k n =
     (if n < 20 then min (int n) 5 else max 5 (min 10 \<lfloor>log 2 (real n) * 1.5\<rfloor>))"
proof (cases "n < 20")
  case True
  then show ?thesis by (simp add: dynamic_k_def)
next
  case False
  then have "0 \<le> log 2 (real n) * 1.5" by simp
  then show ?thesis using False by (simp add: dynamic_k_def py_int_nonneg)
qed

text \<open>From 20 chunks on the policy takes the values 6, 7, 8, 9 and 10.\<close>

lemma dynamic_k_table:
  assumes "20 \<le> n"
  shows "dynamic_k n =
           (if n < 26 then 6 else if n < 41 then 7 else if n < 64 then 8
            else if n < 102 then 9 else 10)"
proof -
  have pos: "0 < n" using assms by simp
  have cube_mono: "\<And>a b::nat. a \<le> b \<Longrightarrow> a ^ 3 \<le> b ^ 3"
    by (rule power_mono) simp_all
  consider "n < 26" | "26 \<le> n" "n < 41" | "41 \<le> n" "n < 64" | "64 \<le> n" "n < 102" | "102 \<le> n"
    by linarith
  then show ?thesis
  proof cases
    case 1
    have "20 ^ 3 \<le> n ^ 3" "n ^ 3 \<le> 25 ^ 3"
      using assms 1 cube_mono [of 20 n] cube_mono [of n 25] by simp_all
    then have "\<lfloor>log 2 (real n) * 1.5\<rfloor> = int 6"
      using pos by (intro floor_scaled_log2) simp_all
    then show ?thesis using assms 1 by (simp add: dynamic_k_floor)
  next
    case 2
    have "26 ^ 3 \<le> n ^ 3" "n ^ 3 \<le> 40 ^ 3"
      using 2 cube_mono [of 26 n] cube_mono [of n 40] by simp_all
    then have "\<lfloor>log 2 (real n) * 1.5\<rfloor> = int 7"
      using pos by (intro floor_scaled_log2) simp_all
    then show ?thesis using assms 2 by (simp add: dynamic_k_floor)
  next
    case 3
    have "41 ^ 3 \<le> n ^ 3" "n ^ 3 \<le> 63 ^ 3"
      using 3 cube_mono [of 41 n] cube_mono [of n 63] by simp_all
    then have "\<lfloor>log 2 (real n) * 1.5\<rfloor> = int 8"
      using pos by (intro floor_scaled_log2) simp_all
    then show ?thesis using assms 3 by (simp add: dynamic_k_floor)
  next
    case 4
    have "64 ^ 3 \<le> n ^ 3" "n ^ 3 \<le> 101 ^ 3"
      using 4 cube_mono [of 64 n] cube_mono [of n 101] by simp_all
    then have "\<lfloor>log 2 (real n) * 1.5\<rfloor> = int 9"
      using pos by (intro floor_scaled_log2) simp_all
    then show ?thesis using assms 4 by (simp add: dynamic_k_floor)
  next
    case 5
    have "102 ^ 3 \<le> n ^ 3"
      using 5 cube_mono [of 102 n] by simp
    then have "2 ^ (2 * 10) \<le> n ^ 3"
      by simp
    then have "real (10::nat) \<le> log 2 (real n) * 1.5"
      using pos by (simp only: scaled_log2_ge_iff)
    then have "10 \<le> \<lfloor>log 2 (real n) * 1.5\<rfloor>"
      by (simp add: le_floor_iff)
    then show ?thesis using assms 5 by (simp add: dynamic_k_floor)
  qed
qed

lemma dynamic_k_24: "dynamic_k 24 = 6"
  by (simp add: dynamic_k_table)

lemma dynamic_k_spec_24: "dynamic_k_spec 24 = 7"
proof -
  have r: "round (log 2 (real 24) * 1.5) = int 7"
    by (rule round_scaled_log2) simp_all
  show ?thesis
    unfolding dynamic_k_spec_def by (subst r) simp
qed

lemma ingest_empty: "ingest_video_to_chunks splitter vid [] = ([], 5)"
  by (simp add: ingest_video_to_chunks_def)

text \<open>
  C3, as stated, fails. With 24 chunks the code computes
  \<open>int(log2(24) * 1.5) = int(6.877...) = 6\<close>, while the claimed
  \<open>clamp(round(log2(24) * 1.5), 5, 10)\<close> is 7: the code truncates, it does not round.
  And the empty fragment list yields zero chunks with \<open>dynamic_k = 5\<close>, not
  \<open>min(0, 5) = 0\<close>.
\<close>

theorem dynamic_k_round_counterexample:
  "dynamic_k 24 = 6 \<and> dynamic_k_spec 24 = 7 \<and>
   ingest_video_to_chunks (\<lambda>chunk_size chunk_overlap docs. docs) ''dQw4w9WgXcQ'' [] = ([], 5) \<and>
   dynamic_k_spec (length ([] :: document list)) = 0"
proof -
  have "dynamic_k_spec (length ([] :: document list)) = 0"
    by (simp add: dynamic_k_spec_def)
  then show ?thesis
    by (simp only: dynamic_k_24 dynamic_k_spec_24 ingest_empty simp_thms)
qed

text \<open>
  C3, amended: for every text splitter and every fragment list, if the Chunker returns
  \<open>(chunks, k)\<close> with \<open>num_chunks = len(chunks)\<close>, then for the empty fragment list
  \<open>chunks\<close> is empty and \<open>k = 5\<close>; otherwise \<open>k = min(num_chunks, 5)\<close> when
  \<open>num_chunks < 20\<close> and \<open>k = clamp(floor(log2(num_chunks) * 1.5), 5, 10)\<close> when
  \<open>num_chunks \<ge> 20\<close>, the product being truncated, not rounded.
\<close>

theorem ingest_dynamic_k:
  assumes "ingest_video_to_chunks splitter vid fragments = (chunks, k)"
  shows "(if fragments = [] then chunks = [] \<and> k = 5
          else if length chunks < 20 then k = min (int (length chunks)) 5
          else k = max 5 (min 10 \<lfloor>log 2 (real (length chunks)) * 1.5\<rfloor>))"
proof (cases "fragments = []")
  case True
  then show ?thesis using assms by (simp add: ingest_empty)
next
  case False
  then have "k = dynamic_k (length chunks)"
    using assms by (auto simp: ingest_video_to_chunks_def Let_def)
  then show ?thesis using False by (simp add: dynamic_k_floor)
qed

theorem ingest_dynamic_k_witness:
  "ingest_video_to_chunks (\<lambda>chunk_size chunk_overlap docs. docs) ''dQw4w9WgXcQ''
     [\<lparr>frag_text = ''hello world'', frag_start = 0, duration = 2\<rparr>,
      \<lparr>frag_text = ''foo bar baz'', frag_start = 2, duration = 3\<rparr>]
   = ([\<lparr>page_content = ''[Timestamp: 0s] hello world foo bar baz'',
        metadata = \<lparr>video_id = ''dQw4w9WgXcQ'', start = 0, end_sec = 5\<rparr>\<rparr>], 1)
   \<and> (1::int) = min (int (length [0::nat])) 5"
proof -
  have h: "ingest_video_to_chunks (\<lambda>chunk_size chunk_overlap docs. docs) ''dQw4w9WgXcQ''
     [\<lparr>frag_text = ''hello world'', frag_start = 0, duration = 2\<rparr>,
      \<lparr>frag_text = ''foo bar baz'', frag_start = 2, duration = 3\<rparr>]
   = ([\<lparr>page_content = ''[Timestamp: 0s] hello world foo bar baz'',
        metadata = \<lparr>video_id = ''dQw4w9WgXcQ'', start = 0, end_sec = 5\<rparr>\<rparr>], 1)"
    by (simp add: ingest_video_to_chunks_def Let_def py_int_def str_int_def
        str_nat.simps [of 0] digit_char_def dynamic_k_def)
  from ingest_dynamic_k [OF h] h show ?thesis
    by simp
qed

text \<open>
  The policy of lines 175--179 alone: non-decreasing from 20 chunks on, and
  \<open>min(num_chunks, 5)\<close> below 20.
\<close>

lemma dynamic_k_policy_monotone:
  "(20 \<le> m \<and> m \<le> n \<longrightarrow> dynamic_k m \<le> dynamic_k n) \<and>
   (j < 20 \<longrightarrow> dynamic_k j = min (int j) 5)"
proof (intro conjI impI)
  assume h: "20 \<le> m \<and> m \<le> n"
  then have "log 2 (real m) \<le> log 2 (real n)"
    by simp
  then have "\<lfloor>log 2 (real m) * 1.5\<rfloor> \<le> \<lfloor>log 2 (real n) * 1.5\<rfloor>"
    by (intro floor_mono) simp
  then show "dynamic_k m \<le> dynamic_k n"
    using h by (simp add: dynamic_k_floor)
next
  assume "j < 20"
  then show "dynamic_k j = min (int j) 5"
    by (simp add: dynamic_k_def)
qed

text \<open>
  When every fragment is at least as long as the window, the loop of lines 148--168 emits
  one window per fragment.
\<close>

lemma build_raw_docs_flush_each:
  "list_all (\<lambda>d. target_size \<le> length (page_content d)) docs \<Longrightarrow>
     length (build_raw_docs vid target_size docs [] cs 0) = length docs"
  by (induction docs arbitrary: cs) (simp_all add: Let_def)

lemma ingest_long_fragments:
  assumes "0 < n"
  shows "length (fst (ingest_video_to_chunks (\<lambda>chunk_size chunk_overlap docs. docs) vid
                        (long_fragments n))) = n"
proof -
  have ne: "long_fragments n \<noteq> []"
    using assms by (simp add: long_fragments_def)
  have len: "length (long_fragments n) = n"
    by (simp add: long_fragments_def)
  have all: "list_all (\<lambda>d. t \<le> length (page_content d))
          (map (\<lambda>f. \<lparr>page_content = frag_text f,
                       metadata = \<lparr>video_id = vid, start = py_int (frag_start f),
                                   end_sec = py_int (frag_start f + duration f)\<rparr>\<rparr>)
             (long_fragments n))" if "t \<le> 1200" for t
    using that by (simp add: long_fragments_def list_all_iff)
  have t: "max 600 (min 1200 x) \<le> (1200::nat)" for x
    by simp
  show ?thesis
    using ne by (simp add: ingest_video_to_chunks_def Let_def
        build_raw_docs_flush_each [OF all [OF t]] len)
qed

text \<open>
  C9, as stated, fails on the Chunker: for an empty fragment list lines 137--138
  return no chunks and a retrieval count of 5, although \<open>num_chunks = 0 < 20\<close> and
  \<open>min(0, 5) = 0\<close>.
\<close>

theorem chunker_empty_counterexample:
  "ingest_video_to_chunks (\<lambda>chunk_size chunk_overlap docs. docs) ''dQw4w9WgXcQ'' [] = ([], 5) \<and>
   length ([] :: document list) < 20 \<and>
   (5::int) \<noteq> min (int (length ([] :: document list))) 5"
  by (simp add: ingest_video_to_chunks_def)

text \<open>
  C9, amended: over the results of \<open>ingest_video_to_chunks\<close>, the retrieval count is
  non-decreasing in the number of chunks from 20 chunks on; for a non-empty
  fragment list that yields fewer than 20 chunks it equals
  \<open>min(num_chunks, 5)\<close>; for the empty fragment list it is 5, with no chunks.
\<close>

theorem chunker_dynamic_k_monotone:
  "(ingest_video_to_chunks splitter vid fragments = (chunks, k) \<and>
    ingest_video_to_chunks splitter' vid' fragments' = (chunks', k') \<and>
    20 \<le> length chunks \<and> length chunks \<le> length chunks' \<longrightarrow> k \<le> k') \<and>
   (ingest_video_to_chunks splitter2 vid2 fragments2 = (chunks2, k2) \<and>
    fragments2 \<noteq> [] \<and> length chunks2 < 20 \<longrightarrow> k2 = min (int (length chunks2)) 5) \<and>
   ingest_video_to_chunks splitter3 vid3 [] = ([], 5)"
proof (intro conjI impI)
  assume h: "ingest_video_to_chunks splitter vid fragments = (chunks, k) \<and>
    ingest_video_to_chunks splitter' vid' fragments' = (chunks', k') \<and>
    20 \<le> length chunks \<and> length chunks \<le> length chunks'"
  then have "fragments \<noteq> []" "fragments' \<noteq> []"
    by (auto simp: ingest_empty)
  with h have "k = dynamic_k (length chunks)" "k' = dynamic_k (length chunks')"
    by (auto simp: ingest_video_to_chunks_def Let_def)
  with h show "k \<le> k'"
    using dynamic_k_policy_monotone [of "length chunks" "length chunks'"] by simp
next
  assume h: "ingest_video_to_chunks splitter2 vid2 fragments2 = (chunks2, k2) \<and>
    fragments2 \<noteq> [] \<and> length chunks2 < 20"
  then have "k2 = dynamic_k (length chunks2)"
    by (auto simp: ingest_video_to_chunks_def Let_def)
  with h show "k2 = min (int (length chunks2)) 5"
    by (simp add: dynamic_k_def)
next
  show "ingest_video_to_chunks splitter3 vid3 [] = ([], 5)"
    by (rule ingest_empty)
qed

theorem chunker_dynamic_k_monotone_witness:
  "20 \<le> length (fst (ingest_video_to_chunks (\<lambda>chunk_size chunk_overlap docs. docs) ''dQw4w9WgXcQ'' (long_fragments 25))) \<and>
   length (fst (ingest_video_to_chunks (\<lambda>chunk_size chunk_overlap docs. docs) ''dQw4w9WgXcQ'' (long_fragments 25)))
     \<le> length (fst (ingest_video_to_chunks (\<lambda>chunk_size chunk_overlap docs. docs) ''dQw4w9WgXcQ'' (long_fragments 26))) \<and>
   snd (ingest_video_to_chunks (\<lambda>chunk_size chunk_overlap docs. docs) ''dQw4w9WgXcQ'' (long_fragments 25))
     \<le> snd (ingest_video_to_chunks (\<lambda>chunk_size chunk_overlap docs. docs) ''dQw4w9WgXcQ'' (long_fragments 26)) \<and>
   long_fragments 3 \<noteq> [] \<and>
   length (fst (ingest_video_to_chunks (\<lambda>chunk_size chunk_overlap docs. docs) ''dQw4w9WgXcQ'' (long_fragments 3))) < 20 \<and>
   snd (ingest_video_to_chunks (\<lambda>chunk_size chunk_overlap docs. docs) ''dQw4w9WgXcQ'' (long_fragments 3))
     = min (int (length (fst (ingest_video_to_chunks (\<lambda>chunk_size chunk_overlap docs. docs) ''dQw4w9WgXcQ'' (long_fragments 3))))) 5 \<and>
   ingest_video_to_chunks (\<lambda>chunk_size chunk_overlap docs. docs) ''dQw4w9WgXcQ'' [] = ([], 5)"
proof -
  let ?I = "\<lambda>n. ingest_video_to_chunks (\<lambda>chunk_size chunk_overlap docs. docs) ''dQw4w9WgXcQ'' (long_fragments n)"
  have ne: "long_fragments 3 \<noteq> []"
    by (simp add: long_fragments_def)
  have l25: "length (fst (?I 25)) = 25" and l26: "length (fst (?I 26)) = 26"
    and l3: "length (fst (?I 3)) = 3"
    by (simp_all add: ingest_long_fragments)
  show ?thesis
    using chunker_dynamic_k_monotone
      [of "\<lambda>chunk_size chunk_overlap docs. docs" "''dQw4w9WgXcQ''" "long_fragments 25"
          "fst (?I 25)" "snd (?I 25)"
          "\<lambda>chunk_size chunk_overlap docs. docs" "''dQw4w9WgXcQ''" "long_fragments 26"
          "fst (?I 26)" "snd (?I 26)"
          "\<lambda>chunk_size chunk_overlap docs. docs" "''dQw4w9WgXcQ''" "long_fragments 3"
          "fst (?I 3)" "snd (?I 3)"
          "\<lambda>chunk_size chunk_overlap docs. docs" "''dQw4w9WgXcQ''"]
    by (simp add: l25 l26 l3 ne)
qed


section \<open>Properties of \<open>extract_video_id\<close>\<close>

lemma match_group_eq: "match_group s = (if grp s then Some (take 11 s) else None)"
  by (simp add: match_group_def grp_def)

lemma take_length_eq_iff: "take (length p) t = p \<longleftrightarrow> (\<exists>u. t = p @ u)"
  by (metis append_eq_conv_conj append_take_drop_id)

lemma match_prefixed_Some_iff:
  "match_prefixed p t = Some g \<longleftrightarrow> (\<exists>u. t = p @ u \<and> grp u \<and> g = take 11 u)"
  by (auto simp: match_prefixed_def match_group_eq take_length_eq_iff)

lemma match_prefixed_None_iff:
  "match_prefixed p t = None \<longleftrightarrow> (\<forall>u. t = p @ u \<longrightarrow> \<not> grp u)"
  by (auto simp: match_prefixed_def match_group_eq take_length_eq_iff)

lemma match_here_Some_iff:
  "match_here t = Some g \<longleftrightarrow>
     (\<exists>p u. p \<in> {''v='', ''/'', ''be/''} \<and> t = p @ u \<and> grp u \<and> g = take 11 u)"
  unfolding match_here_def
  by (auto simp: match_prefixed_Some_iff match_prefixed_None_iff split: option.splits)

lemma re_search_Some:
  "re_search s = Some g \<Longrightarrow>
     \<exists>q\<le>length s. match_here (drop q s) = Some g \<and> (\<forall>q'<q. match_here (drop q' s) = None)"
proof (induction s)
  case Nil
  then show ?case by simp
next
  case (Cons c cs)
  show ?case
  proof (cases "match_here (c # cs)")
    case (Some g')
    with Cons.prems have "match_here (drop 0 (c # cs)) = Some g" by simp
    then show ?thesis by blast
  next
    case None
    with Cons.prems have "re_search cs = Some g" by simp
    from Cons.IH [OF this] obtain q where q: "q \<le> length cs" "match_here (drop q cs) = Some g"
      "\<forall>q'<q. match_here (drop q' cs) = None" by blast
    have "\<forall>q'<Suc q. match_here (drop q' (c # cs)) = None"
    proof (intro allI impI)
      fix q' assume "q' < Suc q"
      then show "match_here (drop q' (c # cs)) = None"
        using None q(3) by (cases q') auto
    qed
    with q(1,2) show ?thesis
      by (intro exI [of _ "Suc q"]) simp
  qed
qed

lemma re_search_None:
  "re_search s = None \<Longrightarrow> match_here (drop q s) = None"
proof (induction s arbitrary: q)
  case Nil
  then show ?case by simp
next
  case (Cons c cs)
  then show ?case
    by (cases q) (auto split: option.splits)
qed


lemma split_at_pattern:
  assumes "i \<le> length s" and "k \<le> i" and "take k (drop (i - k) s) = p" and "length p = k"
  shows "s = take (i - k) s @ p @ drop i s \<and> length (take (i - k) s) + length p = i"
proof -
  have "drop (i - k) s = take k (drop (i - k) s) @ drop k (drop (i - k) s)"
    by (simp only: append_take_drop_id)
  also have "drop k (drop (i - k) s) = drop i s"
    using assms(2) by simp
  finally have "drop (i - k) s = p @ drop i s"
    using assms(3) by simp
  then have "s = take (i - k) s @ p @ drop i s"
    by (metis append_take_drop_id)
  moreover have "length (take (i - k) s) + length p = i"
    using assms(1,2,4) by simp
  ultimately show ?thesis by blast
qed

lemma preceded_group_at_iff:
  "preceded_group_at s i \<longleftrightarrow>
     (\<exists>a p u. p \<in> {''v='', ''/'', ''be/''} \<and> s = a @ p @ u \<and> length a + length p = i \<and> grp u)"
  (is "?L \<longleftrightarrow> ?R")
proof
  assume ?L
  then have g: "grp (drop i s)" and i: "i \<le> length s" and
    c: "(2 \<le> i \<and> take 2 (drop (i - 2) s) = ''v='') \<or>
        (1 \<le> i \<and> take 1 (drop (i - 1) s) = ''/'') \<or>
        (3 \<le> i \<and> take 3 (drop (i - 3) s) = ''be/'')"
    by (auto simp: preceded_group_at_def grp_def)
  from c consider "2 \<le> i" "take 2 (drop (i - 2) s) = ''v=''"
    | "1 \<le> i" "take 1 (drop (i - 1) s) = ''/''"
    | "3 \<le> i" "take 3 (drop (i - 3) s) = ''be/''"
    by blast
  then show ?R
  proof cases
    case 1
    from split_at_pattern [OF i 1(1) 1(2)] g show ?thesis
      by (intro exI [of _ "take (i - 2) s"] exI [of _ "''v=''"] exI [of _ "drop i s"]) simp
  next
    case 2
    from split_at_pattern [OF i 2(1) 2(2)] g show ?thesis
      by (intro exI [of _ "take (i - 1) s"] exI [of _ "''/''"] exI [of _ "drop i s"]) simp
  next
    case 3
    from split_at_pattern [OF i 3(1) 3(2)] g show ?thesis
      by (intro exI [of _ "take (i - 3) s"] exI [of _ "''be/''"] exI [of _ "drop i s"]) simp
  qed
next
  assume ?R
  then obtain a p u where h: "p \<in> {''v='', ''/'', ''be/''}" "s = a @ p @ u"
    "length a + length p = i" "grp u" by blast
  have d: "drop i s = u"
    using h(2,3) by simp
  have t: "\<And>k. length p = k \<Longrightarrow> k \<le> i \<and> take k (drop (i - k) s) = p"
    using h(2,3) by auto
  from h(1) consider "p = ''v=''" | "p = ''/''" | "p = ''be/''"
    by blast
  then have "(2 \<le> i \<and> take 2 (drop (i - 2) s) = ''v='') \<or>
        (1 \<le> i \<and> take 1 (drop (i - 1) s) = ''/'') \<or>
        (3 \<le> i \<and> take 3 (drop (i - 3) s) = ''be/'')"
  proof cases
    case 1
    then have "length p = 2" by simp
    from t [OF this] 1 show ?thesis by blast
  next
    case 2
    then have "length p = 1" by simp
    from t [OF this] 2 show ?thesis by blast
  next
    case 3
    then have "length p = 3" by simp
    from t [OF this] 3 show ?thesis by blast
  qed
  moreover have "i + 11 \<le> length s"
    using h(2,3,4) by (simp add: grp_def)
  ultimately show ?L
    using h(4) d by (simp add: preceded_group_at_def grp_def)
qed


lemma pattern_gives_match:
  assumes "p \<in> {''v='', ''/'', ''be/''}" and "s = a @ p @ u" and "grp u"
  shows "match_here (drop (length a) s) = Some (take 11 u)"
  using assms by (subst match_here_Some_iff) auto

lemma no_earlier_group:
  assumes p: "p \<in> {''v='', ''/'', ''be/''}" and p': "p' \<in> {''v='', ''/'', ''be/''}"
    and eq: "p @ u = b @ p' @ u'" and less: "length b + length p' < length p"
  shows False
proof -
  have "length b < 2"
    using p p' less by auto
  then consider "b = []" | x where "b = [x]"
    by (cases b) (auto simp: length_Suc_conv)
  then show False
  proof cases
    case 1
    with p p' eq less show False by auto
  next
    case 2
    with p p' eq less show False by auto
  qed
qed

text \<open>
  C10: if the input contains an 11-character group over \<open>[0-9A-Za-z_-]\<close> preceded by
  \<open>v=\<close>, \<open>/\<close> or \<open>be/\<close>, \<open>extract_video_id\<close> returns the first such group, the one
  at the least position; otherwise it returns the input unchanged.
\<close>

theorem extract_video_id_first_group:
  "extract_video_id s =
     (case List.find (preceded_group_at s) [0..<Suc (length s)] of
        Some i \<Rightarrow> take 11 (drop i s)
      | None \<Rightarrow> s)"
proof (cases "re_search s")
  case None
  have "\<not> preceded_group_at s i" for i
  proof
    assume "preceded_group_at s i"
    then obtain a p u where "p \<in> {''v='', ''/'', ''be/''}" "s = a @ p @ u" "grp u"
      unfolding preceded_group_at_iff by blast
    from pattern_gives_match [OF this] re_search_None [OF None, of "length a"]
    show False by simp
  qed
  then have "List.find (preceded_group_at s) [0..<Suc (length s)] = None"
    by (simp add: find_None_iff)
  with None show ?thesis
    by (simp add: extract_video_id_def)
next
  case (Some g)
  from re_search_Some [OF this] obtain q where q: "q \<le> length s"
    "match_here (drop q s) = Some g" "\<forall>q'<q. match_here (drop q' s) = None"
    by blast
  from q(2) obtain p u where pu: "p \<in> {''v='', ''/'', ''be/''}" "drop q s = p @ u" "grp u"
    "g = take 11 u"
    unfolding match_here_Some_iff by blast
  define i where "i = q + length p"
  have "s = take q s @ drop q s"
    by simp
  then have s_eq: "s = take q s @ p @ u"
    by (simp only: pu(2))
  have len: "length (take q s) = q"
    using q(1) by simp
  have "length (take q s) + length p = i"
    using len by (simp add: i_def)
  with pu(1,3) s_eq have pg: "preceded_group_at s i"
    unfolding preceded_group_at_iff by (intro exI conjI)
  have "drop (length p) (drop q s) = u"
    using pu(2) by simp
  then have du: "drop i s = u"
    by (simp add: i_def add.commute)
  have i_le: "i < Suc (length s)"
    using pg by (simp add: preceded_group_at_def)
  have least: "\<not> preceded_group_at s j" if "j < i" for j
  proof
    assume "preceded_group_at s j"
    then obtain a' p' u' where h: "p' \<in> {''v='', ''/'', ''be/''}" "s = a' @ p' @ u'"
      "length a' + length p' = j" "grp u'"
      unfolding preceded_group_at_iff by blast
    have ge: "q \<le> length a'"
    proof (rule ccontr)
      assume "\<not> q \<le> length a'"
      then have "match_here (drop (length a') s) = None"
        using q(3) by simp
      with pattern_gives_match [OF h(1,2,4)] show False
        by simp
    qed
    have "drop q s = drop q a' @ p' @ u'"
      using h(2) ge by simp
    with pu(2) have eq: "p @ u = drop q a' @ p' @ u'"
      by simp
    have "length (drop q a') + length p' < length p"
      using that h(3) ge unfolding i_def by simp
    from no_earlier_group [OF pu(1) h(1) eq this] show False .
  qed
  have "List.find (preceded_group_at s) [0..<Suc (length s)] = Some i"
    unfolding find_Some_iff
  proof (intro exI [of _ i] conjI allI impI)
    show "i < length [0..<Suc (length s)]" using i_le by simp
    show "preceded_group_at s ([0..<Suc (length s)] ! i)"
      using pg i_le by (simp del: upt_Suc)
    show "i = [0..<Suc (length s)] ! i"
      using i_le by (simp del: upt_Suc)
    fix j assume "j < i"
    then show "\<not> preceded_group_at s ([0..<Suc (length s)] ! j)"
      using least i_le by (simp del: upt_Suc)
  qed
  with Some pu(4) du show ?thesis
    by (simp add: extract_video_id_def)
qed

theorem extract_video_id_first_group_witness:
  "extract_video_id ''https://youtu.be/dQw4w9WgXcQ?t=3'' = ''dQw4w9WgXcQ'' \<and>
   extract_video_id ''not a video url'' = ''not a video url''"
proof -
  have "List.find (preceded_group_at ''https://youtu.be/dQw4w9WgXcQ?t=3'')
          [0..<Suc (length ''https://youtu.be/dQw4w9WgXcQ?t=3'')] = Some 17"
    by (simp add: preceded_group_at_def id_char_def upt_conv_Cons)
  with extract_video_id_first_group [of "''https://youtu.be/dQw4w9WgXcQ?t=3''"]
  have a: "extract_video_id ''https://youtu.be/dQw4w9WgXcQ?t=3'' = ''dQw4w9WgXcQ''"
    by simp
  have "List.find (preceded_group_at ''not a video url'')
          [0..<Suc (length ''not a video url'')] = None"
    by (simp add: preceded_group_at_def id_char_def upt_conv_Cons)
  with extract_video_id_first_group [of "''not a video url''"]
  have b: "extract_video_id ''not a video url'' = ''not a video url''"
    by simp
  from a b show ?thesis by simp
qed

section \<open>Properties of the summary input\<close>

lemma length_join_sp: "length (join_sp xs) = sum_list (map length xs) + (length xs - 1)"
  by (induction xs rule: join_sp.induct) auto


lemma slice_step_nth:
  assumes "0 < k"
  shows "slice_step k xs = map (\<lambda>j. xs ! (j * k)) [0..<(length xs + k - 1) div k]"
  using assms
proof (induction k xs rule: slice_step.induct)
  case (1 step)
  then show ?case by simp
next
  case (2 step x xs)
  define zs where "zs = drop (step - 1) xs"
  define m where "m = (length (x # xs) + step - 1) div step"
  have zs: "zs = drop step (x # xs)"
    using "2.prems" by (cases step) (simp_all add: zs_def)
  have lz: "length zs = Suc (length xs) - step"
    by (simp add: zs)
  have "length (x # xs) + step - 1 = length xs + step"
    by simp
  moreover have "(length xs + step) div step = Suc (length xs div step)"
    using "2.prems" by (simp add: div_add_self2)
  ultimately have m1: "m = Suc (length xs div step)"
    by (simp only: m_def)
  have m2: "(length zs + step - 1) div step = length xs div step"
  proof (cases "step \<le> Suc (length xs)")
    case True
    then have "length zs + step - 1 = length xs"
      using "2.prems" by (simp add: lz)
    then show ?thesis by simp
  next
    case False
    then show ?thesis using "2.prems" by (simp add: lz)
  qed
  have m: "m = Suc ((length zs + step - 1) div step)"
    by (simp only: m1 m2)
  have IH: "slice_step step zs = map (\<lambda>j. zs ! (j * step)) [0..<(length zs + step - 1) div step]"
    using "2.IH" "2.prems" by (simp add: zs_def)
  have "map (\<lambda>j. (x # xs) ! (j * step)) [0..<m]
        = x # map (\<lambda>j. (x # xs) ! (Suc j * step)) [0..<(length zs + step - 1) div step]"
    unfolding m by (simp add: upt_conv_Cons map_Suc_upt [symmetric] del: upt_Suc)
  also have "map (\<lambda>j. (x # xs) ! (Suc j * step)) [0..<(length zs + step - 1) div step]
        = map (\<lambda>j. zs ! (j * step)) [0..<(length zs + step - 1) div step]"
  proof (rule map_cong [OF refl])
    fix j assume "j \<in> set [0..<(length zs + step - 1) div step]"
    then have "j < length xs div step"
      using m2 by simp
    then have "step \<le> length xs"
      by (metis div_less gr_implies_not0 not_le)
    then show "(x # xs) ! (Suc j * step) = zs ! (j * step)"
      unfolding zs by (subst nth_drop) simp_all
  qed
  finally have "map (\<lambda>j. (x # xs) ! (j * step)) [0..<m] = x # slice_step step zs"
    by (simp only: IH)
  then show ?case
    by (simp add: zs_def m_def)
qed

lemma length_slice_step:
  "0 < k \<Longrightarrow> length (slice_step k xs) = (length xs + k - 1) div k"
  by (simp add: slice_step_nth)


lemma ceil_div_step:
  assumes "0 < b"
  shows "n div b + 1 = (if b dvd n then ceil_div n b + 1 else ceil_div n b)"
proof -
  have n: "b * (n div b) + n mod b = n"
    by simp
  have r: "n mod b < b"
    using assms by simp
  have s1: "b * Suc (n div b) = b * (n div b) + b"
    by simp
  have s2: "b * Suc (Suc (n div b)) = b * (n div b) + b + b"
    by simp
  show ?thesis
  proof (cases "b dvd n")
    case True
    then have z: "n mod b = 0" by simp
    have "(n + b - 1) div b = n div b"
    proof (rule div_nat_eqI)
      show "b * (n div b) \<le> n + b - 1"
        using assms n z by linarith
      show "n + b - 1 < b * Suc (n div b)"
        unfolding s1 using assms n z by linarith
    qed
    then show ?thesis using True by (simp add: ceil_div_def)
  next
    case False
    then have p: "0 < n mod b"
      by (simp add: dvd_eq_mod_eq_0)
    have "(n + b - 1) div b = Suc (n div b)"
    proof (rule div_nat_eqI)
      show "b * Suc (n div b) \<le> n + b - 1"
        unfolding s1 using n p by linarith
      show "n + b - 1 < b * Suc (Suc (n div b))"
        unfolding s2 using n r by linarith
    qed
    then show ?thesis using False by (simp add: ceil_div_def)
  qed
qed

text \<open>
  C4, amended: when the concatenated content exceeds the 500,000-character budget, the
  summary text is the concatenation of the chunks at the indices 0, stride, 2 * stride,
  ... of the chunk sequence, with \<open>stride = floor(len / budget) + 1\<close>, which is at least 2
  and equals \<open>ceil(len / budget)\<close> exactly when the length is not a multiple of the budget
  (it is one more otherwise); within the budget the full concatenated text is used.
\<close>

theorem prepare_text_sampling:
  "let total_text = join_sp (map page_content chunks);
       step = length total_text div MAX_CHARS + 1
   in if length total_text > MAX_CHARS then
        prepare_text chunks =
          join_sp (map page_content
            (map (\<lambda>j. chunks ! (j * step)) [0..<(length chunks + step - 1) div step])) \<and>
        2 \<le> step \<and>
        (if MAX_CHARS dvd length total_text
         then step = ceil_div (length total_text) MAX_CHARS + 1
         else step = ceil_div (length total_text) MAX_CHARS)
      else prepare_text chunks = total_text"
proof -
  define total_text where "total_text = join_sp (map page_content chunks)"
  define step where "step = length total_text div MAX_CHARS + 1"
  have pos: "0 < step" by (simp add: step_def)
  show ?thesis
  proof (cases "length total_text > MAX_CHARS")
    case True
    then have "1 \<le> length total_text div MAX_CHARS"
      by (simp add: MAX_CHARS_def)
    then have "2 \<le> step" by (simp add: step_def)
    moreover have "prepare_text chunks = join_sp (map page_content (slice_step step chunks))"
      using True by (simp add: prepare_text_def Let_def total_text_def step_def)
    moreover have "(if MAX_CHARS dvd length total_text
         then step = ceil_div (length total_text) MAX_CHARS + 1
         else step = ceil_div (length total_text) MAX_CHARS)"
      unfolding step_def using ceil_div_step [of MAX_CHARS "length total_text"]
      by (simp add: MAX_CHARS_def)
    ultimately show ?thesis
      using True unfolding Let_def total_text_def [symmetric] step_def [symmetric]
      by (simp add: slice_step_nth [OF pos])
  next
    case False
    then show ?thesis
      by (simp add: prepare_text_def Let_def total_text_def)
  qed
qed


lemma long_chunks_contents:
  "map page_content (map (\<lambda>i. sample_chunk i 999) [0..<999] @ [sample_chunk 999 1000])
     = replicate 999 (replicate 999 CHR ''a'') @ [replicate 1000 CHR ''a'']"
  by (simp add: sample_chunk_def o_def map_replicate_const del: upt_Suc upt_rec_numeral)

lemma long_chunks_total:
  "length (join_sp (map page_content
      (map (\<lambda>i. sample_chunk i 999) [0..<999] @ [sample_chunk 999 1000]))) = 1000000"
  by (simp only: long_chunks_contents length_join_sp) (simp add: sum_list_replicate)

text \<open>
  C4, as stated, fails when the length is a multiple of the budget. A thousand chunks,
  999 of 999 characters and one of 1000, concatenate to 1,000,000 characters. The
  claimed stride \<open>ceil(1000000 / 500000)\<close> is 2 and would keep 500 chunks; the code's
  stride is \<open>1000000 // 500000 + 1 = 3\<close> and it keeps 334.
\<close>

theorem stride_ceil_counterexample:
  "let chunks = map (\<lambda>i. sample_chunk i 999) [0..<999] @ [sample_chunk 999 1000];
       total_text = join_sp (map page_content chunks)
   in length total_text = 1000000 \<and> length total_text > MAX_CHARS \<and>
      ceil_div (length total_text) MAX_CHARS = 2 \<and>
      prepare_text chunks = join_sp (map page_content (slice_step 3 chunks)) \<and>
      length (slice_step 3 chunks) = 334 \<and>
      length (slice_step (ceil_div (length total_text) MAX_CHARS) chunks) = 500"
proof -
  define chunks where "chunks = map (\<lambda>i. sample_chunk i 999) [0..<999] @ [sample_chunk 999 1000]"
  have len: "length chunks = 1000"
    by (simp add: chunks_def del: upt_Suc upt_rec_numeral)
  have total: "length (join_sp (map page_content chunks)) = 1000000"
    unfolding chunks_def by (rule long_chunks_total)
  have c: "ceil_div 1000000 MAX_CHARS = 2"
    by (simp add: ceil_div_def MAX_CHARS_def)
  have p: "prepare_text chunks = join_sp (map page_content (slice_step 3 chunks))"
    by (simp add: prepare_text_def Let_def total MAX_CHARS_def)
  have l3: "length (slice_step 3 chunks) = 334"
    by (simp add: length_slice_step len)
  have l2: "length (slice_step 2 chunks) = 500"
    by (simp add: length_slice_step len)
  show ?thesis
    unfolding Let_def chunks_def [symmetric] total c
    using p l3 l2 by (simp add: MAX_CHARS_def)
qed

theorem prepare_text_sampling_witness:
  "let chunks = replicate 1000 (sample_chunk 0 999)
   in length (join_sp (map page_content chunks)) = 999999 \<and>
      prepare_text chunks =
        join_sp (map page_content (map (\<lambda>j. chunks ! (j * 2)) [0..<500])) \<and>
      ceil_div 999999 MAX_CHARS = 2 \<and>
      prepare_text [sample_chunk 0 5, sample_chunk 1 3] = replicate 5 CHR ''a'' @ '' '' @ replicate 3 CHR ''a''"
proof -
  define chunks where "chunks = replicate 1000 (sample_chunk 0 999)"
  have total: "length (join_sp (map page_content chunks)) = 999999"
    by (simp add: chunks_def length_join_sp sum_list_replicate sample_chunk_def)
  have len: "length chunks = 1000"
    by (simp add: chunks_def)
  have nd: "\<not> MAX_CHARS dvd 999999"
    by (simp add: MAX_CHARS_def)
  have st: "999999 div MAX_CHARS + 1 = (2::nat)"
    by (simp add: MAX_CHARS_def)
  have over: "999999 > MAX_CHARS"
    by (simp add: MAX_CHARS_def)
  have n: "(1000 + 2 - 1) div 2 = (500::nat)"
    by simp
  from prepare_text_sampling [of chunks]
  have a: "prepare_text chunks =
        join_sp (map page_content (map (\<lambda>j. chunks ! (j * 2)) [0..<500]))
        \<and> ceil_div 999999 MAX_CHARS = 2"
    unfolding Let_def total len st n
    by (simp only: over nd if_True if_False)
  have b: "prepare_text [sample_chunk 0 5, sample_chunk 1 3] = replicate 5 CHR ''a'' @ '' '' @ replicate 3 CHR ''a''"
    using prepare_text_sampling [of "[sample_chunk 0 5, sample_chunk 1 3]"]
    by (simp add: Let_def MAX_CHARS_def sample_chunk_def)
  show ?thesis
    unfolding Let_def chunks_def [symmetric] using total a b by simp
qed

section \<open>Properties of the Chunk Validator\<close>

lemma sum_replace_last:
  assumes "ds \<noteq> []"
  shows "sum_list (map (\<lambda>d. length (page_content d))
           (butlast ds @ [\<lparr>page_content = page_content (last ds) @ '' '' @ content,
                           metadata = m\<rparr>]))
         = sum_list (map (\<lambda>d. length (page_content d)) ds) + 1 + length content"
proof -
  from assms have "ds = butlast ds @ [last ds]" by simp
  then have "sum_list (map (\<lambda>d. length (page_content d)) ds)
      = sum_list (map (\<lambda>d. length (page_content d)) (butlast ds)) + length (page_content (last ds))"
    by (metis (no_types, lifting) list.simps(8,9) map_append sum_list.Cons sum_list.Nil sum_list_append add.right_neutral)
  then show ?thesis by simp
qed

lemma validate_loop_total:
  "kept_chars st + sum_list (map length (List.map_filter (\<lambda>c. sanitize U (page_content c)) chunks))
     \<le> kept_chars (validate_loop U embed_fn ok chunks st)"
proof (induction chunks arbitrary: st)
  case Nil
  then show ?case by (simp add: List.map_filter_simps)
next
  case (Cons chunk chunks)
  show ?case
  proof (cases "sanitize U (page_content chunk)")
    case None
    then show ?thesis using Cons.IH [of st] by (simp add: List.map_filter_simps)
  next
    case (Some content)
    obtain success clock' where a: "attempt_embedding 2 embed_fn ok (clock st) content = (success, clock')"
      by (cases "attempt_embedding 2 embed_fn ok (clock st) content")
    show ?thesis
    proof (cases success)
      case True
      let ?st = "st\<lparr>validated_chunks := validated_chunks st @
                        [\<lparr>page_content = content, metadata = metadata chunk\<rparr>],
                     clock := clock'\<rparr>"
      have "kept_chars ?st = kept_chars st + length content"
        by (simp add: kept_chars_def)
      with Cons.IH [of ?st] Some a True show ?thesis
        by (simp add: List.map_filter_simps)
    next
      case False
      show ?thesis
      proof (cases "validated_chunks st = []")
        case True
        let ?st = "st\<lparr>dropped := dropped st @ [content], clock := clock'\<rparr>"
        have "kept_chars ?st = kept_chars st + length content"
          by (simp add: kept_chars_def)
        with Cons.IH [of ?st] Some a False True show ?thesis
          by (simp add: List.map_filter_simps)
      next
        case ne: False
        let ?st = "st\<lparr>validated_chunks := butlast (validated_chunks st) @
                             [\<lparr>page_content = page_content (last (validated_chunks st)) @ '' '' @ content,
                               metadata = metadata (last (validated_chunks st))\<rparr>],
                          clock := clock'\<rparr>"
        have "kept_chars ?st = kept_chars st + 1 + length content"
          using sum_replace_last [OF ne] by (simp add: kept_chars_def)
        with Cons.IH [of ?st] Some a False ne show ?thesis
          by (simp add: List.map_filter_simps Let_def)
      qed
    qed
  qed
qed


text \<open>
  Every call of \<open>embed_query\<close> advances the clock, and so does the retry loop.
\<close>

lemma embed_query_from_clock:
  "clk \<le> snd (embed_query_from n raw clk txt)"
proof (induction n arbitrary: clk)
  case 0
  then show ?case by simp
next
  case (Suc n)
  show ?case
    using Suc.IH [of "Suc clk"] by (simp split: option.splits)
qed

lemma embed_query_advances: "clk < snd (embed_query raw clk txt)"
  using embed_query_from_clock [of "Suc clk" "Suc 0" raw "txt"]
  by (simp add: embed_query_def numeral_2_eq_2 split: option.splits)

lemma attempt_embedding_clock:
  assumes adv: "\<And>c t. c < snd (embed_fn c t)"
  shows "clk \<le> snd (attempt_embedding n embed_fn ok clk content)"
proof (induction n arbitrary: clk)
  case 0
  then show ?case by simp
next
  case (Suc n)
  obtain r c1 where e: "embed_fn clk content = (r, c1)"
    by (cases "embed_fn clk content")
  with adv [of clk content] have lt: "clk < c1" by simp
  from Suc.IH [of c1] lt have "clk \<le> snd (attempt_embedding n embed_fn ok c1 content)"
    by simp
  with e lt show ?case
    by (simp split: option.splits)
qed

lemma attempt_embedding_success:
  assumes adv: "\<And>c t. c < snd (embed_fn c t)"
    and "attempt_embedding n embed_fn ok clk content = (True, clk')"
  shows "\<exists>c vec. clk \<le> c \<and> c < clk' \<and> embed_fn c content = (Some vec, clk') \<and> ok vec"
  using assms(2)
proof (induction n arbitrary: clk)
  case 0
  then show ?case by simp
next
  case (Suc n)
  obtain r c1 where e: "embed_fn clk content = (r, c1)"
    by (cases "embed_fn clk content")
  with adv [of clk content] have lt: "clk < c1" by simp
  have rec: "\<exists>c vec. clk \<le> c \<and> c < clk' \<and> embed_fn c content = (Some vec, clk') \<and> ok vec"
    if "attempt_embedding n embed_fn ok c1 content = (True, clk')"
  proof -
    from Suc.IH [OF that] obtain c vec where
      "c1 \<le> c" "c < clk'" "embed_fn c content = (Some vec, clk')" "ok vec"
      by blast
    with lt show ?thesis
      by (intro exI [of _ c] exI [of _ vec]) simp
  qed
  show ?case
  proof (cases r)
    case None
    with Suc.prems e show ?thesis by (intro rec) simp
  next
    case (Some vec)
    show ?thesis
    proof (cases "ok vec")
      case True
      with Suc.prems e Some have "clk' = c1" by simp
      with e Some True lt show ?thesis
        by (intro exI [of _ clk] exI [of _ vec]) simp
    next
      case False
      with Suc.prems e Some show ?thesis by (intro rec) simp
    qed
  qed
qed

lemma carries_embedded_text_iff:
  "carries_embedded_text U embed_fn ok chunks clock0 clock1 d \<longleftrightarrow>
     (\<exists>chunk content c vec c'.
        chunk \<in> set chunks \<and> sanitize U (page_content chunk) = Some content \<and>
        metadata d = metadata chunk \<and> take (length content) (page_content d) = content \<and>
        clock0 \<le> c \<and> c < clock1 \<and> embed_fn c content = (Some vec, c') \<and> ok vec \<and> c' \<le> clock1)"
  (is "?L \<longleftrightarrow> ?R")
proof
  assume ?L
  then obtain chunk where ch: "chunk \<in> set chunks"
    and body: "case sanitize U (page_content chunk) of
          None \<Rightarrow> False
        | Some content \<Rightarrow>
            metadata d = metadata chunk \<and>
            take (length content) (page_content d) = content \<and>
            list_ex (\<lambda>c. case embed_fn c content of
                            (Some vec, c') \<Rightarrow> ok vec \<and> c' \<le> clock1
                          | (None, c') \<Rightarrow> False)
              [clock0..<clock1]"
    unfolding carries_embedded_text_def list_ex_iff by blast
  from body obtain content where s: "sanitize U (page_content chunk) = Some content"
    by (cases "sanitize U (page_content chunk)") simp_all
  with body have m: "metadata d = metadata chunk"
    and t: "take (length content) (page_content d) = content"
    and ex: "list_ex (\<lambda>c. case embed_fn c content of
                            (Some vec, c') \<Rightarrow> ok vec \<and> c' \<le> clock1
                          | (None, c') \<Rightarrow> False) [clock0..<clock1]"
    by simp_all
  from ex obtain c where c: "clock0 \<le> c" "c < clock1"
    and call: "case embed_fn c content of
                 (Some vec, c') \<Rightarrow> ok vec \<and> c' \<le> clock1
               | (None, c') \<Rightarrow> False"
    unfolding list_ex_iff by auto
  obtain r c' where e: "embed_fn c content = (r, c')"
    by (cases "embed_fn c content")
  with call obtain vec where "r = Some vec" "ok vec" "c' \<le> clock1"
    by (cases r) simp_all
  with ch s m t c e show ?R
    by blast
next
  assume ?R
  then obtain chunk content c vec c' where ch: "chunk \<in> set chunks"
    and s: "sanitize U (page_content chunk) = Some content"
    and m: "metadata d = metadata chunk"
    and t: "take (length content) (page_content d) = content"
    and c: "clock0 \<le> c" "c < clock1"
    and e: "embed_fn c content = (Some vec, c')" "ok vec" "c' \<le> clock1"
    by blast
  from c e have "list_ex (\<lambda>c. case embed_fn c content of
                            (Some vec, c') \<Rightarrow> ok vec \<and> c' \<le> clock1
                          | (None, c') \<Rightarrow> False) [clock0..<clock1]"
    unfolding list_ex_iff by (intro bexI [of _ c]) simp_all
  with ch s m t show ?L
    unfolding carries_embedded_text_def list_ex_iff by (intro bexI [of _ chunk]) simp_all
qed

lemma carries_embedded_text_later:
  assumes "carries_embedded_text U embed_fn ok chunks clock0 clock1 d" and "clock1 \<le> clock2"
  shows "carries_embedded_text U embed_fn ok chunks clock0 clock2 d"
proof -
  from assms(1) obtain chunk content c vec c' where
    "chunk \<in> set chunks" "sanitize U (page_content chunk) = Some content"
    "metadata d = metadata chunk" "take (length content) (page_content d) = content"
    "clock0 \<le> c" "c < clock1" "embed_fn c content = (Some vec, c')" "ok vec" "c' \<le> clock1"
    unfolding carries_embedded_text_iff by blast
  moreover from this assms(2) have "c < clock2" "c' \<le> clock2"
    by simp_all
  ultimately show ?thesis
    unfolding carries_embedded_text_iff by blast
qed

lemma carries_embedded_text_absorb:
  assumes "carries_embedded_text U embed_fn ok chunks clock0 clock1 d"
  shows "carries_embedded_text U embed_fn ok chunks clock0 clock1
           \<lparr>page_content = page_content d @ extra, metadata = metadata d\<rparr>"
proof -
  from assms obtain chunk content c vec c' where h:
    "chunk \<in> set chunks" "sanitize U (page_content chunk) = Some content"
    "metadata d = metadata chunk" "take (length content) (page_content d) = content"
    "clock0 \<le> c" "c < clock1" "embed_fn c content = (Some vec, c')" "ok vec" "c' \<le> clock1"
    unfolding carries_embedded_text_iff by blast
  have "length (take (length content) (page_content d)) = length content"
    using h(4) by simp
  then have "length content \<le> length (page_content d)"
    by simp
  with h(4) have "take (length content) (page_content d @ extra) = content"
    by simp
  with h show ?thesis
    unfolding carries_embedded_text_iff by (intro exI [of _ chunk] exI [of _ content] exI [of _ c] exI [of _ vec] exI [of _ c']) simp
qed

lemma validate_loop_carries:
  assumes adv: "\<And>c t. c < snd (embed_fn c t)"
    and "set chunks \<subseteq> set all_chunks"
    and "clock0 \<le> clock st"
    and "list_all (carries_embedded_text U embed_fn ok all_chunks clock0 (clock st)) (validated_chunks st)"
  shows "list_all (carries_embedded_text U embed_fn ok all_chunks clock0
                     (clock (validate_loop U embed_fn ok chunks st)))
           (validated_chunks (validate_loop U embed_fn ok chunks st))"
  using assms(2-)
proof (induction chunks arbitrary: st)
  case Nil
  then show ?case by simp
next
  case (Cons chunk chunks)
  from Cons.prems have sub: "set chunks \<subseteq> set all_chunks" and mem: "chunk \<in> set all_chunks"
    by simp_all
  show ?case
  proof (cases "sanitize U (page_content chunk)")
    case None
    then show ?thesis using Cons.IH [OF sub Cons.prems(2,3)] by simp
  next
    case (Some content)
    obtain success clock' where a: "attempt_embedding 2 embed_fn ok (clock st) content = (success, clock')"
      by (cases "attempt_embedding 2 embed_fn ok (clock st) content")
    have "clock st \<le> snd (attempt_embedding 2 embed_fn ok (clock st) content)"
      by (rule attempt_embedding_clock [where embed_fn = embed_fn]) (rule adv)
    with a have le: "clock st \<le> clock'" by simp
    with Cons.prems(2) have le0: "clock0 \<le> clock'" by simp
    from Cons.prems(3) le
    have old: "list_all (carries_embedded_text U embed_fn ok all_chunks clock0 clock') (validated_chunks st)"
      by (auto simp: list_all_iff intro: carries_embedded_text_later)
    show ?thesis
    proof (cases success)
      case True
      let ?st = "st\<lparr>validated_chunks := validated_chunks st @
                        [\<lparr>page_content = content, metadata = metadata chunk\<rparr>],
                     clock := clock'\<rparr>"
      have "\<exists>c vec. clock st \<le> c \<and> c < clock' \<and> embed_fn c content = (Some vec, clock') \<and> ok vec"
      proof (rule attempt_embedding_success [where embed_fn = embed_fn and ok = ok and content = content])
        show "\<And>c t. c < snd (embed_fn c t)" by (rule adv)
        show "attempt_embedding 2 embed_fn ok (clock st) content = (True, clock')"
          using a True by simp
      qed
      then obtain c vec where "clock st \<le> c" "c < clock'" "embed_fn c content = (Some vec, clock')" "ok vec"
        by blast
      with Cons.prems(2) mem Some
      have "carries_embedded_text U embed_fn ok all_chunks clock0 clock'
              \<lparr>page_content = content, metadata = metadata chunk\<rparr>"
        unfolding carries_embedded_text_iff
        by (intro exI [of _ chunk] exI [of _ content] exI [of _ c] exI [of _ vec] exI [of _ clock']) simp
      with old have "list_all (carries_embedded_text U embed_fn ok all_chunks clock0 (clock ?st))
                       (validated_chunks ?st)"
        by simp
      moreover from le0 have "clock0 \<le> clock ?st" by simp
      ultimately show ?thesis
        using Cons.IH [OF sub, of ?st] Some a True by simp
    next
      case False
      show ?thesis
      proof (cases "validated_chunks st = []")
        case True
        let ?st = "st\<lparr>dropped := dropped st @ [content], clock := clock'\<rparr>"
        from old have "list_all (carries_embedded_text U embed_fn ok all_chunks clock0 (clock ?st))
                         (validated_chunks ?st)"
          by simp
        moreover from le0 have "clock0 \<le> clock ?st" by simp
        ultimately show ?thesis
          using Cons.IH [OF sub, of ?st] Some a False True by simp
      next
        case ne: False
        let ?prev = "last (validated_chunks st)"
        let ?st = "st\<lparr>validated_chunks := butlast (validated_chunks st) @
                             [\<lparr>page_content = page_content ?prev @ '' '' @ content,
                               metadata = metadata ?prev\<rparr>],
                          clock := clock'\<rparr>"
        from ne old have "carries_embedded_text U embed_fn ok all_chunks clock0 clock' ?prev"
          by (simp add: list_all_iff)
        then have "carries_embedded_text U embed_fn ok all_chunks clock0 clock'
            \<lparr>page_content = page_content ?prev @ '' '' @ content, metadata = metadata ?prev\<rparr>"
          by (rule carries_embedded_text_absorb)
        moreover have "list_all (carries_embedded_text U embed_fn ok all_chunks clock0 clock')
                         (butlast (validated_chunks st))"
          using old by (auto simp: list_all_iff dest: in_set_butlastD)
        ultimately have "list_all (carries_embedded_text U embed_fn ok all_chunks clock0 (clock ?st))
                           (validated_chunks ?st)"
          by simp
        moreover from le0 have "clock0 \<le> clock ?st" by simp
        ultimately show ?thesis
          using Cons.IH [OF sub, of ?st] Some a False ne by (simp add: Let_def)
      qed
    qed
  qed
qed

lemma sanitize_vector_flat:
  "sanitize_vector (Lst (replicate n (Num (Fin r)))) = replicate n (Fin r)"
  by (induction n) (simp_all add: sanitize_vector_def)


lemma embedding_ok_iff: "embedding_ok flat \<longleftrightarrow> 100 \<le> length flat \<and> list_all isfinite flat"
  by (auto simp: embedding_ok_def list_ex_iff list_all_iff)

text \<open>
  The validator of embeddings.py: every returned chunk has the metadata of an input
  chunk and starts with the sanitised text of that chunk, for which a call of
  \<open>embed_query\<close> made during the run returned a vector of length at least 100 with finite
  elements only.
\<close>

lemma backend_validator_invariant:
  "list_all (carries_embedded_text U (embed_query raw) embedding_ok chunks clock0
               (clock (validate_chunks_for_embeddings U raw clock0 chunks)))
     (validated_chunks (validate_chunks_for_embeddings U raw clock0 chunks))"
  unfolding validate_chunks_for_embeddings_def
  by (rule validate_loop_carries [where embed_fn = "embed_query raw"])
    (simp_all add: embed_query_advances)

lemma good_vector_ok: "embedding_ok (replicate 100 (Fin 0))"
  by (simp add: embedding_ok_iff list_all_iff)

lemma sanitize_first: "sanitize ascii ''the first chunk of the talk'' = Some ''the first chunk of the talk''"
  by (simp add: sanitize_def strip_def split_def ascii_def Let_def)

lemma sanitize_second: "sanitize ascii ''the second chunk of the talk'' = Some ''the second chunk of the talk''"
  by (simp add: sanitize_def strip_def split_def ascii_def Let_def)

lemma sanitize_third: "sanitize ascii ''the third chunk of the talk'' = Some ''the third chunk of the talk''"
  by (simp add: sanitize_def strip_def split_def ascii_def Let_def)

lemma sanitize_tiny: "sanitize ascii '' tiny  text '' = None"
  by (simp add: sanitize_def strip_def split_def ascii_def Let_def)

lemma clean_first: "clean ascii ''the first chunk of the talk'' = ''the first chunk of the talk''"
  by (simp add: clean_def strip_def split_def ascii_def)

lemma clean_second: "clean ascii ''the second chunk of the talk'' = ''the second chunk of the talk''"
  by (simp add: clean_def strip_def split_def ascii_def)

lemma clean_third: "clean ascii ''the third chunk of the talk'' = ''the third chunk of the talk''"
  by (simp add: clean_def strip_def split_def ascii_def)

lemma clean_tiny: "clean ascii '' tiny  text '' = ''tiny text''"
  by (simp add: clean_def strip_def split_def ascii_def)

lemma NFKC_ascii: "NFKC ascii s = s"
  by (simp add: ascii_def)

text \<open>
  Once a chunk has been validated nothing is dropped any more: the log \<open>dropped\<close> holds
  the chunks that failed before the first validated chunk, and only those.
\<close>

lemma no_drop_after_first_validated:
  "validated_chunks st \<noteq> [] \<Longrightarrow>
     dropped (validate_loop U embed_fn ok chunks st) = dropped st"
proof (induction chunks arbitrary: st)
  case Nil
  then show ?case by simp
next
  case (Cons chunk chunks)
  show ?case
  proof (cases "sanitize U (page_content chunk)")
    case None
    then show ?thesis using Cons by simp
  next
    case (Some content)
    obtain success clock' where a: "attempt_embedding 2 embed_fn ok (clock st) content = (success, clock')"
      by (cases "attempt_embedding 2 embed_fn ok (clock st) content")
    show ?thesis
    proof (cases success)
      case True
      let ?st = "st\<lparr>validated_chunks := validated_chunks st @
                        [\<lparr>page_content = content, metadata = metadata chunk\<rparr>],
                     clock := clock'\<rparr>"
      have "validated_chunks ?st \<noteq> []" by simp
      from Cons.IH [OF this] Some a True show ?thesis by simp
    next
      case False
      let ?st = "st\<lparr>validated_chunks := butlast (validated_chunks st) @
                             [\<lparr>page_content = page_content (last (validated_chunks st)) @ '' '' @ content,
                               metadata = metadata (last (validated_chunks st))\<rparr>],
                          clock := clock'\<rparr>"
      have "validated_chunks ?st \<noteq> []" by simp
      from Cons.IH [OF this] Some a False Cons.prems show ?thesis by (simp add: Let_def)
    qed
  qed
qed

text \<open>
  The gate of \<open>sanitize\<close> is on the cleaned text, before normalisation; and the log
  \<open>dropped\<close> of a run is \<open>failed_without_predecessor\<close> of its input.
\<close>

lemma sanitize_clean:
  "sanitize U page =
     (if length (clean U page) < 15 then None else Some (NFKC U (clean U page)))"
  by (simp add: sanitize_def clean_def Let_def split_def)

lemma map_filter_sanitize:
  "List.map_filter (\<lambda>c. sanitize U (page_content c)) chunks =
     map (\<lambda>c. NFKC U (clean U (page_content c)))
       (filter (\<lambda>c. 15 \<le> length (clean U (page_content c))) chunks)"
  by (induction chunks) (simp_all add: List.map_filter_simps sanitize_clean)

lemma dropped_validate_loop:
  "dropped (validate_loop U embed_fn ok chunks st) =
     dropped st @ (if validated_chunks st = []
                   then failed_without_predecessor U embed_fn ok (clock st) chunks else [])"
proof (induction chunks arbitrary: st)
  case Nil
  then show ?case by simp
next
  case (Cons chunk chunks)
  show ?case
  proof (cases "length (clean U (page_content chunk)) < 15")
    case True
    then show ?thesis using Cons.IH [of st] by (simp add: sanitize_clean)
  next
    case gate: False
    let ?content = "NFKC U (clean U (page_content chunk))"
    obtain success clock' where a: "attempt_embedding 2 embed_fn ok (clock st) ?content = (success, clock')"
      by (cases "attempt_embedding 2 embed_fn ok (clock st) ?content")
    show ?thesis
    proof (cases success)
      case True
      with gate a show ?thesis
        by (simp add: sanitize_clean Cons.IH no_drop_after_first_validated)
    next
      case False
      with gate a show ?thesis
        by (simp add: sanitize_clean Cons.IH Let_def no_drop_after_first_validated)
    qed
  qed
qed

lemma dropped_failed_without_predecessor:
  "dropped (validate_chunks_for_embeddings U raw clock0 chunks) =
     failed_without_predecessor U (embed_query raw) embedding_ok clock0 chunks \<and>
   dropped (validate_chunks_for_embeddings_mv U raw clock0 chunks) =
     failed_without_predecessor U (embed_query_mv raw) embedding_ok_mv clock0 chunks"
  by (simp add: validate_chunks_for_embeddings_def validate_chunks_for_embeddings_mv_def
      dropped_validate_loop)

text \<open>
  C2, amended: for every input chunk list, the total character count of the output
  ValidatedChunks' content is at least the total character count of the NFKC-normalised
  cleaned texts of the chunks that pass the length gate, minus the texts of the chunks
  that pass the gate and fail both attempts while no ValidatedChunk exists yet. The
  cleaned text is the content trimmed, control characters removed and whitespace
  collapsed; the gate keeps a chunk when its cleaned text has at least 15 characters,
  measured before the NFKC normalisation. This holds for the validator of embeddings.py
  and for the one of multiVideo.py.
\<close>

theorem validator_keeps_cleaned_text:
  "sum_list (map (\<lambda>c. length (NFKC U (clean U (page_content c))))
      (filter (\<lambda>c. 15 \<le> length (clean U (page_content c))) chunks))
     \<le> sum_list (map (\<lambda>d. length (page_content d))
           (validated_chunks (validate_chunks_for_embeddings U raw clock0 chunks))) +
         sum_list (map length
           (failed_without_predecessor U (embed_query raw) embedding_ok clock0 chunks))
   \<and>
   sum_list (map (\<lambda>c. length (NFKC U (clean U (page_content c))))
      (filter (\<lambda>c. 15 \<le> length (clean U (page_content c))) chunks))
     \<le> sum_list (map (\<lambda>d. length (page_content d))
           (validated_chunks (validate_chunks_for_embeddings_mv U raw clock0 chunks))) +
         sum_list (map length
           (failed_without_predecessor U (embed_query_mv raw) embedding_ok_mv clock0 chunks))"
proof -
  have s: "sum_list (map length (List.map_filter (\<lambda>c. sanitize U (page_content c)) chunks))
      = sum_list (map (\<lambda>c. length (NFKC U (clean U (page_content c))))
          (filter (\<lambda>c. 15 \<le> length (clean U (page_content c))) chunks))"
    by (simp add: map_filter_sanitize comp_def)
  show ?thesis
    using validate_loop_total [of "\<lparr>validated_chunks = [], dropped = [], clock = clock0\<rparr>" U chunks
        "embed_query raw" embedding_ok]
      validate_loop_total [of "\<lparr>validated_chunks = [], dropped = [], clock = clock0\<rparr>" U chunks
        "embed_query_mv raw" embedding_ok_mv]
      dropped_failed_without_predecessor [of U raw clock0 chunks]
    unfolding s
    by (simp add: kept_chars_def validate_chunks_for_embeddings_def
        validate_chunks_for_embeddings_mv_def)
qed

text \<open>
  C2, as stated, fails. First input: the embedding provider always answers; the second
  chunk has 12 characters and 9 after sanitisation, so the length gate drops it although
  a ValidatedChunk precedes it: 27 characters come out of 39, and no chunk failed
  without a predecessor. Second input: the provider fails on its first eight calls, so
  the first and the second chunk both fail with no predecessor and both are dropped: the
  loss is not confined to the very first chunk.
\<close>

theorem merge_never_loses_text_counterexample:
  "(let chunks =
          [\<lparr>page_content = ''the first chunk of the talk'',
            metadata = \<lparr>video_id = ''dQw4w9WgXcQ'', start = 0, end_sec = 60\<rparr>\<rparr>,
           \<lparr>page_content = '' tiny  text '',
            metadata = \<lparr>video_id = ''dQw4w9WgXcQ'', start = 60, end_sec = 120\<rparr>\<rparr>];
        r = validate_chunks_for_embeddings ascii
              (\<lambda>clock txt. Some (Lst (replicate 100 (Num (Fin 0))))) 0 chunks
    in validated_chunks r =
         [\<lparr>page_content = ''the first chunk of the talk'',
           metadata = \<lparr>video_id = ''dQw4w9WgXcQ'', start = 0, end_sec = 60\<rparr>\<rparr>] \<and>
       dropped r = [] \<and>
       sum_list (map (\<lambda>d. length (page_content d)) (validated_chunks r))
         < sum_list (map (\<lambda>d. length (page_content d)) chunks)
           - sum_list (map length (dropped r)))
   \<and>
   (let chunks =
          [\<lparr>page_content = ''the first chunk of the talk'',
            metadata = \<lparr>video_id = ''dQw4w9WgXcQ'', start = 0, end_sec = 60\<rparr>\<rparr>,
           \<lparr>page_content = ''the second chunk of the talk'',
            metadata = \<lparr>video_id = ''dQw4w9WgXcQ'', start = 60, end_sec = 120\<rparr>\<rparr>,
           \<lparr>page_content = ''the third chunk of the talk'',
            metadata = \<lparr>video_id = ''dQw4w9WgXcQ'', start = 120, end_sec = 180\<rparr>\<rparr>];
        r = validate_chunks_for_embeddings ascii
              (\<lambda>clock txt. if clock < 8 then None else Some (Lst (replicate 100 (Num (Fin 0))))) 0
              chunks
    in validated_chunks r =
         [\<lparr>page_content = ''the third chunk of the talk'',
           metadata = \<lparr>video_id = ''dQw4w9WgXcQ'', start = 120, end_sec = 180\<rparr>\<rparr>] \<and>
       dropped r = [''the first chunk of the talk'', ''the second chunk of the talk''])"
  by (simp add: validate_chunks_for_embeddings_def sanitize_first sanitize_second sanitize_third
      sanitize_tiny embed_query_def numeral_2_eq_2 sanitize_vector_flat good_vector_ok)

theorem validator_keeps_cleaned_text_witness:
  "(let chunks =
          [\<lparr>page_content = ''the first chunk of the talk'',
            metadata = \<lparr>video_id = ''dQw4w9WgXcQ'', start = 0, end_sec = 60\<rparr>\<rparr>,
           \<lparr>page_content = '' tiny  text '',
            metadata = \<lparr>video_id = ''dQw4w9WgXcQ'', start = 60, end_sec = 120\<rparr>\<rparr>,
           \<lparr>page_content = ''the second chunk of the talk'',
            metadata = \<lparr>video_id = ''dQw4w9WgXcQ'', start = 120, end_sec = 180\<rparr>\<rparr>,
           \<lparr>page_content = ''the third chunk of the talk'',
            metadata = \<lparr>video_id = ''dQw4w9WgXcQ'', start = 180, end_sec = 240\<rparr>\<rparr>];
        raw = (\<lambda>clock txt. if clock = 4 then Some (Lst (replicate 100 (Num (Fin 0)))) else None);
        r = validate_chunks_for_embeddings ascii raw 0 chunks
    in validated_chunks r =
         [\<lparr>page_content = ''the second chunk of the talk the third chunk of the talk'',
           metadata = \<lparr>video_id = ''dQw4w9WgXcQ'', start = 120, end_sec = 180\<rparr>\<rparr>] \<and>
       failed_without_predecessor ascii (embed_query raw) embedding_ok 0 chunks
         = [''the first chunk of the talk''] \<and>
       sum_list (map (\<lambda>c. length (NFKC ascii (clean ascii (page_content c))))
          (filter (\<lambda>c. 15 \<le> length (clean ascii (page_content c))) chunks)) = 82 \<and>
       sum_list (map (\<lambda>c. length (NFKC ascii (clean ascii (page_content c))))
          (filter (\<lambda>c. 15 \<le> length (clean ascii (page_content c))) chunks))
         \<le> sum_list (map (\<lambda>d. length (page_content d)) (validated_chunks r)) +
             sum_list (map length
               (failed_without_predecessor ascii (embed_query raw) embedding_ok 0 chunks)))"
  using validator_keeps_cleaned_text [of ascii
      "[\<lparr>page_content = ''the first chunk of the talk'',
            metadata = \<lparr>video_id = ''dQw4w9WgXcQ'', start = 0, end_sec = 60\<rparr>\<rparr>,
           \<lparr>page_content = '' tiny  text '',
            metadata = \<lparr>video_id = ''dQw4w9WgXcQ'', start = 60, end_sec = 120\<rparr>\<rparr>,
           \<lparr>page_content = ''the second chunk of the talk'',
            metadata = \<lparr>video_id = ''dQw4w9WgXcQ'', start = 120, end_sec = 180\<rparr>\<rparr>,
           \<lparr>page_content = ''the third chunk of the talk'',
            metadata = \<lparr>video_id = ''dQw4w9WgXcQ'', start = 180, end_sec = 240\<rparr>\<rparr>]"
      "\<lambda>clock txt. if clock = 4 then Some (Lst (replicate 100 (Num (Fin 0)))) else None" 0]
  by (simp add: validate_chunks_for_embeddings_def sanitize_first sanitize_second sanitize_third
      sanitize_tiny clean_first clean_second clean_third clean_tiny NFKC_ascii
      embed_query_def numeral_2_eq_2 sanitize_vector_flat good_vector_ok)

text \<open>
  C5 fails on the validator of multiVideo.py. When the provider raises on every call,
  \<open>embed_query\<close> of multiVideo.py returns \<open>[0.0]\<close>, the validator of multiVideo.py has no
  length check, and the chunk is returned as validated although no call ever produced a
  vector of length 100 for its text. The validator of embeddings.py satisfies the claim
  (\<open>backend_validator_invariant\<close>).
\<close>

theorem mv_validator_accepts_short_embedding:
  "validated_chunks (validate_chunks_for_embeddings_mv ascii (\<lambda>clock txt. None) 0
       [\<lparr>page_content = ''the first chunk of the talk'',
         metadata = \<lparr>video_id = ''dQw4w9WgXcQ'', start = 0, end_sec = 60\<rparr>\<rparr>])
     = [\<lparr>page_content = ''the first chunk of the talk'',
         metadata = \<lparr>video_id = ''dQw4w9WgXcQ'', start = 0, end_sec = 60\<rparr>\<rparr>] \<and>
   (\<forall>clock txt. fst (embed_query_mv (\<lambda>clock txt. None) clock txt) = Some [Fin 0]) \<and>
   \<not> embedding_ok [Fin 0]"
  by (simp add: validate_chunks_for_embeddings_mv_def sanitize_first embed_query_mv_def
      numeral_2_eq_2 embedding_ok_mv_def embedding_ok_def)

section \<open>Properties of the chat turn, the comparison and the retrieval cache\<close>

lemma invoke_llm_history:
  "invoke_llm w s p = (r, s') \<Longrightarrow> history s' = history s \<and> llm_calls s' = llm_calls s @ [p]"
  by (auto simp: invoke_llm_def)

lemma process_video_frame:
  "process_video w s video_url = (p, s') \<Longrightarrow> history s' = history s \<and> llm_calls s' = llm_calls s"
  by (auto simp: process_video_def Let_def split: option.splits prod.splits if_splits)

lemma get_intent_history:
  "get_intent w s query msgs multi_mode = (route, s') \<Longrightarrow> history s' = history s"
  by (auto simp: get_intent_def Let_def split: option.splits prod.splits if_splits
      dest: invoke_llm_history)

lemma get_universal_summary_history:
  "get_universal_summary w s chunks info = (r, s') \<Longrightarrow> history s' = history s"
  by (auto simp: get_universal_summary_def dest: invoke_llm_history)

text \<open>
  C7: when \<open>chat_with_video\<close> returns a result of intent \<open>ERROR\<close> (transcript not
  available, retrieval failure, generation failure), the message history of the session
  is what it was before the turn: neither the user message nor an assistant message was
  appended.
\<close>

theorem chat_error_keeps_history:
  assumes "chat_with_video w s video_url user_message = (Some r, s')"
    and "intent r = ''ERROR''"
  shows "history s' = history s"
proof -
  obtain processed s1 where p: "process_video w s video_url = (processed, s1)"
    by (cases "process_video w s video_url")
  then have h1: "history s1 = history s"
    by (simp add: process_video_frame)
  show ?thesis
  proof (cases "if pv_chunks processed = [] then None else pv_vectorstore processed")
    case None
    with assms p h1 show ?thesis
      by (simp add: chat_with_video_def Let_def)
  next
    case (Some vs)
    obtain route s2 where g: "get_intent w s1 user_message (history s1) False = (route, s2)"
      by (cases "get_intent w s1 user_message (history s1) False")
    then have h2: "history s2 = history s"
      using h1 by (simp add: get_intent_history)
    show ?thesis
    proof (cases "route = ''SUMMARY''")
      case True
      with assms p Some g show ?thesis
        by (auto simp: chat_with_video_def Let_def split: option.splits prod.splits)
    next
      case False
      show ?thesis
      proof (cases "retriever_invoke w vs (pv_dynamic_k processed) user_message")
        case None
        with assms p Some g False h2 show ?thesis
          by (simp add: chat_with_video_def Let_def)
      next
        case (Some retrieved_docs)
        with assms p \<open>(if pv_chunks processed = [] then None else pv_vectorstore processed) = Some vs\<close>
          g False h2 show ?thesis
          by (auto simp: chat_with_video_def Let_def split: option.splits prod.splits
              dest: invoke_llm_history)
      qed
    qed
  qed
qed


text \<open>The comparison of pipeline.py keeps the history on its \<open>ERROR\<close> results as well.\<close>

lemma compare_error_keeps_history:
  assumes "compare_videos w s url1 url2 question = (r, s')" and "cmp_intent r = ''ERROR''"
  shows "history s' = history s"
proof -
  obtain proc_a s1 where a: "process_video w s url1 = (proc_a, s1)"
    by (cases "process_video w s url1")
  obtain proc_b s2 where b: "process_video w s1 url2 = (proc_b, s2)"
    by (cases "process_video w s1 url2")
  have h: "history s2 = history s"
    using a b by (simp add: process_video_frame)
  show ?thesis
    using assms a b h
    by (auto simp: compare_videos_def Let_def split: option.splits prod.splits if_splits
        dest: invoke_llm_history)
qed

lemma extract_demo: "extract_video_id ''https://youtu.be/dQw4w9WgXcQ'' = ''dQw4w9WgXcQ''"
  by (simp add: extract_video_id_def match_here_def match_prefixed_def match_group_def id_char_def)

lemma extract_demo2: "extract_video_id ''https://www.youtube.com/watch?v=9bZkp7q19f0'' = ''9bZkp7q19f0''"
  by (simp add: extract_video_id_def match_here_def match_prefixed_def match_group_def id_char_def)

theorem chat_error_keeps_history_witness:
  "chat_with_video (demo_world\<lparr>llm := routes_to_rag\<rparr>) processed_state
       ''https://youtu.be/dQw4w9WgXcQ'' ''what is the song about?''
     = (Some \<lparr>response = ''Error retrieving relevant documents.'', intent = ''ERROR'', sources = []\<rparr>,
        processed_state\<lparr>llm_calls := [ROUTER_PROMPT [] ''what is the song about?'' False]\<rparr>)
   \<and> history (processed_state\<lparr>llm_calls := [ROUTER_PROMPT [] ''what is the song about?'' False]\<rparr>)
       = history processed_state"
proof -
  have e: "chat_with_video (demo_world\<lparr>llm := routes_to_rag\<rparr>) processed_state
       ''https://youtu.be/dQw4w9WgXcQ'' ''what is the song about?''
     = (Some \<lparr>response = ''Error retrieving relevant documents.'', intent = ''ERROR'', sources = []\<rparr>,
        processed_state\<lparr>llm_calls := [ROUTER_PROMPT [] ''what is the song about?'' False]\<rparr>)"
    by (simp add: chat_with_video_def process_video_def extract_demo processed_state_def
        initial_state_def demo_processed_def demo_world_def get_intent_def invoke_llm_def
        routes_to_rag_def last_n_def Let_def)
  from chat_error_keeps_history [OF e] e show ?thesis
    by simp
qed

text \<open>
  C1 fails on \<open>chat_with_video\<close> of pipeline.py. The video is processed and has an
  index, the router answers \<open>RAG\<close>, and retrieval returns the single segment \<open>a a a a\<close>,
  which the quality filter drops, so that \<open>kept = 0\<close>. The turn then sends the RAG prompt
  with an empty context to the generation model, returns its answer with intent \<open>RAG\<close>
  and appends the turn to the history. \<open>answer_question_single\<close> of multiVideo.py takes
  the metadata-only path instead (\<open>answer_question_single_fallback\<close>).
\<close>

theorem chat_passes_empty_context:
  "chat_with_video
       (demo_world\<lparr>llm := routes_to_rag, retriever_invoke := (\<lambda>vs k query. Some [noisy_doc])\<rparr>)
       processed_state ''https://youtu.be/dQw4w9WgXcQ'' ''what is the song about?''
     = (Some \<lparr>response = ''It is a pop song.'', intent = ''RAG'', sources = []\<rparr>,
        processed_state
          \<lparr>history := [HumanMessage ''what is the song about?'', AIMessage ''It is a pop song.''],
           llm_calls := [ROUTER_PROMPT [] ''what is the song about?'' False,
                         RAG_PROMPT [] ''what is the song about?'' ''dQw4w9WgXcQ'' 0 [] ''Unknown'']\<rparr>)
   \<and> kept (snd (format_evidence ascii [noisy_doc] True)) = 0"
  by (simp add: chat_with_video_def process_video_def extract_demo processed_state_def
        initial_state_def demo_processed_def demo_world_def get_intent_def invoke_llm_def
        routes_to_rag_def last_n_def Let_def noisy_doc_def is_low_quality_text_def strip_def
        ascii_def rag_context_def first_start_def add_turn_def format_evidence_def
        replace_newlines_def)


lemma process_and_store_video_frame:
  "process_and_store_video w s video_url = (p, s') \<Longrightarrow>
     history s' = history s \<and> llm_calls s' = llm_calls s"
  by (auto simp: process_and_store_video_def Let_def split: option.splits prod.splits if_splits)

text \<open>
  C8, amended: when both videos have no index (\<open>vectorstore\<close> is \<open>None\<close> on both sides),
  the comparison returns without invoking the generation model: \<open>compare_videos\<close> of
  multiVideo.py returns the \<open>INSUFFICIENT_DATA\<close> message, and \<open>compare_videos\<close> of
  pipeline.py returns a result of intent \<open>ERROR\<close> with the response
  "Transcripts missing for both videos. Cannot compare.".
\<close>

theorem compare_without_index:
  "(process_video w s url1 = (proc_a, s1) \<and> process_video w s1 url2 = (proc_b, s2) \<and>
    pv_vectorstore proc_a = None \<and> pv_vectorstore proc_b = None \<longrightarrow>
      compare_videos w s url1 url2 question =
        (\<lparr>cmp_response = ''Transcripts missing for both videos. Cannot compare.'',
          cmp_intent = ''ERROR'', video_a = None, video_b = None\<rparr>, s2) \<and>
      llm_calls s2 = llm_calls s)
   \<and>
   (process_and_store_video w s url1 = (mv_a, t1) \<and> process_and_store_video w t1 url2 = (mv_b, t2) \<and>
    pv_vectorstore mv_a = None \<and> pv_vectorstore mv_b = None \<longrightarrow>
      compare_videos_mv w s url1 url2 question top_k =
        (''INSUFFICIENT_DATA: Transcripts missing for both videos. Please provide videos with captions or transcripts.'',
         t2) \<and>
      llm_calls t2 = llm_calls s)"
proof (intro conjI impI)
  assume h: "process_video w s url1 = (proc_a, s1) \<and> process_video w s1 url2 = (proc_b, s2) \<and>
    pv_vectorstore proc_a = None \<and> pv_vectorstore proc_b = None"
  then show "compare_videos w s url1 url2 question =
        (\<lparr>cmp_response = ''Transcripts missing for both videos. Cannot compare.'',
          cmp_intent = ''ERROR'', video_a = None, video_b = None\<rparr>, s2)"
    by (simp add: compare_videos_def)
  from h show "llm_calls s2 = llm_calls s"
    using process_video_frame [of w s url1 proc_a s1] process_video_frame [of w s1 url2 proc_b s2]
    by simp
next
  assume h: "process_and_store_video w s url1 = (mv_a, t1) \<and>
    process_and_store_video w t1 url2 = (mv_b, t2) \<and>
    pv_vectorstore mv_a = None \<and> pv_vectorstore mv_b = None"
  then show "compare_videos_mv w s url1 url2 question top_k =
        (''INSUFFICIENT_DATA: Transcripts missing for both videos. Please provide videos with captions or transcripts.'',
         t2)"
    by (simp add: compare_videos_mv_def)
  from h show "llm_calls t2 = llm_calls s"
    using process_and_store_video_frame [of w s url1 mv_a t1]
      process_and_store_video_frame [of w t1 url2 mv_b t2]
    by simp
qed

lemma process_first:
  "process_video demo_world initial_state ''https://youtu.be/dQw4w9WgXcQ''
     = (no_captions ''dQw4w9WgXcQ'',
        initial_state\<lparr>processed_videos := [''dQw4w9WgXcQ'' \<mapsto> no_captions ''dQw4w9WgXcQ'']\<rparr>)"
  by (simp add: process_video_def extract_demo initial_state_def demo_world_def ingest_empty
      no_captions_def Let_def)

lemma process_second:
  "process_video demo_world
       (initial_state\<lparr>processed_videos := [''dQw4w9WgXcQ'' \<mapsto> no_captions ''dQw4w9WgXcQ'']\<rparr>)
       ''https://www.youtube.com/watch?v=9bZkp7q19f0''
     = (no_captions ''9bZkp7q19f0'',
        initial_state\<lparr>processed_videos :=
          [''dQw4w9WgXcQ'' \<mapsto> no_captions ''dQw4w9WgXcQ'',
           ''9bZkp7q19f0'' \<mapsto> no_captions ''9bZkp7q19f0'']\<rparr>)"
  by (simp add: process_video_def extract_demo2 initial_state_def demo_world_def ingest_empty
      no_captions_def Let_def)

lemma store_first:
  "process_and_store_video demo_world initial_state ''https://youtu.be/dQw4w9WgXcQ''
     = (no_captions ''dQw4w9WgXcQ'', initial_state)"
  by (simp add: process_and_store_video_def extract_demo demo_world_def ingest_empty
      no_captions_def Let_def)

lemma store_second:
  "process_and_store_video demo_world initial_state ''https://www.youtube.com/watch?v=9bZkp7q19f0''
     = (no_captions ''9bZkp7q19f0'', initial_state)"
  by (simp add: process_and_store_video_def extract_demo2 demo_world_def ingest_empty
      no_captions_def Let_def)

theorem compare_without_index_witness:
  "compare_videos demo_world initial_state ''https://youtu.be/dQw4w9WgXcQ''
       ''https://www.youtube.com/watch?v=9bZkp7q19f0'' ''which one is better?''
     = (\<lparr>cmp_response = ''Transcripts missing for both videos. Cannot compare.'',
         cmp_intent = ''ERROR'', video_a = None, video_b = None\<rparr>,
        initial_state\<lparr>processed_videos :=
          [''dQw4w9WgXcQ'' \<mapsto> no_captions ''dQw4w9WgXcQ'',
           ''9bZkp7q19f0'' \<mapsto> no_captions ''9bZkp7q19f0'']\<rparr>)
   \<and> compare_videos_mv demo_world initial_state ''https://youtu.be/dQw4w9WgXcQ''
       ''https://www.youtube.com/watch?v=9bZkp7q19f0'' ''which one is better?'' 5
     = (''INSUFFICIENT_DATA: Transcripts missing for both videos. Please provide videos with captions or transcripts.'',
        initial_state)
   \<and> llm_calls initial_state = []"
  using compare_without_index [of demo_world initial_state "''https://youtu.be/dQw4w9WgXcQ''"
      "no_captions ''dQw4w9WgXcQ''"
      "initial_state\<lparr>processed_videos := [''dQw4w9WgXcQ'' \<mapsto> no_captions ''dQw4w9WgXcQ'']\<rparr>"
      "''https://www.youtube.com/watch?v=9bZkp7q19f0''" "no_captions ''9bZkp7q19f0''"
      "initial_state\<lparr>processed_videos :=
          [''dQw4w9WgXcQ'' \<mapsto> no_captions ''dQw4w9WgXcQ'',
           ''9bZkp7q19f0'' \<mapsto> no_captions ''9bZkp7q19f0'']\<rparr>"
      "''which one is better?''" "no_captions ''dQw4w9WgXcQ''" initial_state
      "no_captions ''9bZkp7q19f0''" initial_state 5]
    process_first process_second store_first store_second
  by (simp add: no_captions_def initial_state_def)

lemma compare_demo:
  "fst (compare_videos demo_world initial_state ''https://youtu.be/dQw4w9WgXcQ''
          ''https://www.youtube.com/watch?v=9bZkp7q19f0'' ''which one is better?'')
     = \<lparr>cmp_response = ''Transcripts missing for both videos. Cannot compare.'',
        cmp_intent = ''ERROR'', video_a = None, video_b = None\<rparr>"
  by (simp only: compare_videos_def process_first process_second prod.case)
     (simp add: no_captions_def)

text \<open>
  C8, as stated, fails on pipeline.py: with no captions for either video the result has
  intent \<open>ERROR\<close>, and neither its intent nor its response says \<open>INSUFFICIENT_DATA\<close>.
\<close>

theorem compare_error_intent_counterexample:
  "(let r = fst (compare_videos demo_world initial_state ''https://youtu.be/dQw4w9WgXcQ''
                   ''https://www.youtube.com/watch?v=9bZkp7q19f0'' ''which one is better?'')
    in pv_vectorstore (fst (process_video demo_world initial_state ''https://youtu.be/dQw4w9WgXcQ'')) = None \<and>
       pv_vectorstore (fst (process_video demo_world initial_state
          ''https://www.youtube.com/watch?v=9bZkp7q19f0'')) = None \<and>
       cmp_intent r = ''ERROR'' \<and>
       cmp_response r = ''Transcripts missing for both videos. Cannot compare.'' \<and>
       cmp_intent r \<noteq> ''INSUFFICIENT_DATA'' \<and>
       take 17 (cmp_response r) \<noteq> ''INSUFFICIENT_DATA'')"
proof -
  have "pv_vectorstore (fst (process_video demo_world initial_state
          ''https://www.youtube.com/watch?v=9bZkp7q19f0'')) = None"
    by (simp add: process_video_def extract_demo2 initial_state_def demo_world_def ingest_empty
        Let_def)
  then show ?thesis
    by (simp add: compare_demo process_first no_captions_def Let_def)
qed


text \<open>
  The sibling path of multiVideo.py: when no retrieved segment is kept, the only prompt
  sent to the generation model is the metadata-only one.
\<close>

lemma answer_question_single_fallback:
  assumes "process_and_store_video w s url = (p, s1)"
    and "pv_chunks p \<noteq> []" and "pv_vectorstore p = Some vs"
    and "(case retriever_get_relevant_documents w vs (pv_dynamic_k p) q of
            Some docs \<Rightarrow> Some docs
          | None \<Rightarrow> retriever_invoke w vs (pv_dynamic_k p) q) = Some docs"
    and "kept (snd (format_evidence (unicode_db w) docs True)) = 0"
  shows "llm_calls (snd (answer_question_single w s url q))
           = llm_calls s @ [FALLBACK_PROMPT q (title (pv_metadata p)) (channel (pv_metadata p))
                              (date (pv_metadata p)) (description (pv_metadata p))]"
proof -
  obtain evidence_text st where f: "format_evidence (unicode_db w) docs True = (evidence_text, st)"
    by (cases "format_evidence (unicode_db w) docs True")
  with assms(5) have k: "kept st = 0" by simp
  have l: "llm_calls s1 = llm_calls s"
    using assms(1) by (simp add: process_and_store_video_frame)
  show ?thesis
    using assms(1-4) f k l
    by (simp add: answer_question_single_def invoke_llm_def add_turn_def split: option.splits)
qed

text \<open>
  The retrieval cache: on every path the result has no two documents with the same
  \<open>(video_id, start)\<close>, each kept document is the first of the retrieved ones with its key,
  the cache keeps lists without duplicates only, and for a positive bound the result has
  at most \<open>k\<close> documents.
\<close>

lemma dedupe_distinct:
  "distinct (map doc_key merged) \<Longrightarrow> seen = set (map doc_key merged) \<Longrightarrow>
     distinct (map doc_key (dedupe docs seen merged))"
proof (induction docs arbitrary: seen merged)
  case Nil
  then show ?case by simp
next
  case (Cons d docs)
  show ?case
  proof (cases "doc_key d \<in> seen")
    case True
    then show ?thesis using Cons.IH [OF Cons.prems] by simp
  next
    case False
    have "distinct (map doc_key (merged @ [d]))"
      using Cons.prems False by simp
    moreover have "insert (doc_key d) seen = set (map doc_key (merged @ [d]))"
      using Cons.prems by simp
    ultimately have "distinct (map doc_key (dedupe docs (insert (doc_key d) seen) (merged @ [d])))"
      by (rule Cons.IH)
    then show ?thesis using False by simp
  qed
qed

lemma dedupe_trim_distinct:
  "distinct (map doc_key final) \<Longrightarrow> seen = set (map doc_key final) \<Longrightarrow>
     distinct (map doc_key (dedupe_trim k docs seen final))"
proof (induction docs arbitrary: seen final)
  case Nil
  then show ?case by simp
next
  case (Cons d docs)
  show ?case
  proof (cases "doc_key d \<in> seen")
    case True
    then show ?thesis using Cons.IH [OF Cons.prems] by simp
  next
    case False
    have dis: "distinct (map doc_key (final @ [d]))"
      using Cons.prems False by simp
    moreover have "insert (doc_key d) seen = set (map doc_key (final @ [d]))"
      using Cons.prems by simp
    ultimately have "distinct (map doc_key (dedupe_trim k docs (insert (doc_key d) seen) (final @ [d])))"
      by (rule Cons.IH)
    then show ?thesis using False dis by simp
  qed
qed

lemma dedupe_trim_length:
  "length final < k \<Longrightarrow> length (dedupe_trim k docs seen final) \<le> k"
  by (induction docs arbitrary: seen final) auto

lemma dedupe_first_seen:
  "d \<in> set (dedupe docs seen merged) \<Longrightarrow>
     d \<in> set merged \<or> (find (\<lambda>x. doc_key x = doc_key d) docs = Some d \<and> doc_key d \<notin> seen)"
proof (induction docs arbitrary: seen merged)
  case Nil
  then show ?case by simp
next
  case (Cons d0 docs)
  show ?case
  proof (cases "doc_key d0 \<in> seen")
    case True
    with Cons.prems have "d \<in> set (dedupe docs seen merged)" by simp
    from Cons.IH [OF this] True show ?thesis by auto
  next
    case False
    with Cons.prems have "d \<in> set (dedupe docs (insert (doc_key d0) seen) (merged @ [d0]))"
      by simp
    from Cons.IH [OF this] False show ?thesis by auto
  qed
qed

lemma dedupe_trim_first_seen:
  "d \<in> set (dedupe_trim k docs seen final) \<Longrightarrow>
     d \<in> set final \<or> (find (\<lambda>x. doc_key x = doc_key d) docs = Some d \<and> doc_key d \<notin> seen)"
proof (induction docs arbitrary: seen final)
  case Nil
  then show ?case by simp
next
  case (Cons d0 docs)
  show ?case
  proof (cases "doc_key d0 \<in> seen")
    case True
    with Cons.prems have "d \<in> set (dedupe_trim k docs seen final)" by simp
    from Cons.IH [OF this] True show ?thesis by auto
  next
    case False
    show ?thesis
    proof (cases "length (final @ [d0]) \<ge> k")
      case True
      with Cons.prems False show ?thesis by auto
    next
      case nk: False
      with Cons.prems False
      have "d \<in> set (dedupe_trim k docs (insert (doc_key d0) seen) (final @ [d0]))"
        by simp
      from Cons.IH [OF this] False show ?thesis by auto
    qed
  qed
qed

lemma distinct_take_keys: "distinct (map doc_key xs) \<Longrightarrow> distinct (map doc_key (take k xs))"
  by (simp add: take_map [symmetric] distinct_take del: take_map)

lemma get_structured_docs_dedup:
  assumes "cache_ok cache" and "cache_ok cache_later"
    and "get_structured_docs cache acquired cache_later vectorstore_id retr user_query k = (res, cache')"
  shows "distinct (map doc_key res) \<and> cache_ok cache' \<and> (0 < k \<longrightarrow> length res \<le> k)"
proof -
  define cache_key where "cache_key = vectorstore_id @ ''__'' @ user_query"
  have upd: "\<And>c v. cache_ok c \<Longrightarrow> distinct (map doc_key v) \<Longrightarrow> cache_ok (c(cache_key \<mapsto> v))"
    by (auto simp: cache_ok_def)
  have hit: "\<And>c v. cache_ok c \<Longrightarrow> c cache_key = Some v \<Longrightarrow> distinct (map doc_key (take k v))"
    by (auto simp: cache_ok_def intro: distinct_take_keys)
  have d1: "\<And>docs. distinct (map doc_key (take k (dedupe docs {} [])))"
    by (intro distinct_take_keys dedupe_distinct) simp_all
  have d2: "\<And>docs. distinct (map doc_key (dedupe_trim k docs {} []))"
    by (intro dedupe_trim_distinct) simp_all
  have l2: "\<And>docs. 0 < k \<Longrightarrow> length (dedupe_trim k docs {} []) \<le> k"
    by (intro dedupe_trim_length) simp
  show ?thesis
    using assms upd hit d1 d2 l2
    unfolding get_structured_docs_def Let_def cache_key_def [symmetric]
    by (auto split: option.splits if_splits)
qed

text \<open>
  C6 fails for the bound \<open>k = 0\<close> on the main path (cache miss, lock acquired): the loop
  appends the first document before it compares \<open>len(final)\<close> with \<open>k\<close>, so one document
  is returned and cached. The contended path and the cache hit slice with \<open>[:k]\<close> and
  return nothing for the same request. With \<open>k = 5\<close> the duplicate is removed and the
  first-seen documents are returned.
\<close>

theorem main_path_ignores_zero_bound:
  "fst (get_structured_docs Map.empty True Map.empty ''youtube-dQw4w9WgXcQ'' (Some demo_retriever)
          ''what is the song about?'' 0) = [demo_chunk] \<and>
   fst (get_structured_docs Map.empty False Map.empty ''youtube-dQw4w9WgXcQ'' (Some demo_retriever)
          ''what is the song about?'' 0) = [] \<and>
   fst (get_structured_docs
          (snd (get_structured_docs Map.empty True Map.empty ''youtube-dQw4w9WgXcQ''
                  (Some demo_retriever) ''what is the song about?'' 0))
          True Map.empty ''youtube-dQw4w9WgXcQ'' (Some demo_retriever)
          ''what is the song about?'' 0) = [] \<and>
   fst (get_structured_docs Map.empty True Map.empty ''youtube-dQw4w9WgXcQ'' (Some demo_retriever)
          ''what is the song about?'' 5) = [demo_chunk, noisy_doc]"
  by (simp add: get_structured_docs_def demo_retriever_def Let_def doc_key_def demo_chunk_def
      noisy_doc_def)

end
